theory Spec2Isabelle
  imports Main "HOL-Library.Word" "HOL-Library.AList" "HOL-Library.Monad_Syntax"
begin

unbundle bit_operations_syntax

section \<open>Storage manager: common types\<close>

text \<open>
  Modelled from the spec: the identifier types and the sentinel for "no page"
  (\<open>common/config.h\<close> is not among the sources). \<open>frame_id_t\<close>, \<open>page_id_t\<close> and
  \<open>txn_id_t\<close> are 32-bit signed integers; no property below depends on their overflow, so
  they are unbounded integers here. \<open>INVALID_PAGE_ID\<close> is a page id no page has.
\<close>

type_synonym frame_id_t = int
type_synonym page_id_t = int

definition INVALID_PAGE_ID :: page_id_t where
  "INVALID_PAGE_ID = -1"

section \<open>LRU replacer (src/buffer/lru_replacer.cpp)\<close>

text \<open>
  \<open>lru_list_\<close> is a \<open>std::list\<close> of frame ids, most recently unpinned at the front.
  \<open>lru_hash_\<close> maps a frame id to the list node that holds it; only its key set is
  observable, so it is the set of its keys. Erasing the node a key maps to is
  \<open>remove1\<close> on the list.
\<close>

record LRUReplacer =
  max_size :: nat
  lru_list :: "frame_id_t list"
  lru_hash :: "frame_id_t set"

definition new_LRUReplacer :: "nat \<Rightarrow> LRUReplacer" where
  "new_LRUReplacer num_pages = \<lparr>max_size = num_pages, lru_list = [], lru_hash = {}\<rparr>"

text \<open>\<open>Victim\<close>: the result is \<open>None\<close> where the source returns false.\<close>

definition Victim :: "LRUReplacer \<Rightarrow> frame_id_t option \<times> LRUReplacer" where
  "Victim r =
     (if lru_list r = [] then (None, r)
      else (Some (last (lru_list r)),
            r\<lparr>lru_hash := lru_hash r - {last (lru_list r)},
              lru_list := butlast (lru_list r)\<rparr>))"

definition Pin :: "frame_id_t \<Rightarrow> LRUReplacer \<Rightarrow> LRUReplacer" where
  "Pin frame_id r =
     (if frame_id \<notin> lru_hash r then r
      else r\<lparr>lru_list := remove1 frame_id (lru_list r),
             lru_hash := lru_hash r - {frame_id}\<rparr>)"

definition Unpin :: "frame_id_t \<Rightarrow> LRUReplacer \<Rightarrow> LRUReplacer" where
  "Unpin frame_id r =
     (if frame_id \<in> lru_hash r then r
      else if length (lru_list r) \<ge> max_size r then r
      else r\<lparr>lru_list := frame_id # lru_list r,
             lru_hash := insert frame_id (lru_hash r)\<rparr>)"

definition Size :: "LRUReplacer \<Rightarrow> nat" where
  "Size r = length (lru_list r)"

text \<open>The list and the hash hold the same frames, each once.\<close>

definition lru_inv :: "LRUReplacer \<Rightarrow> bool" where
  "lru_inv r \<longleftrightarrow> distinct (lru_list r) \<and> set (lru_list r) = lru_hash r"

subsection \<open>Histories of replacer calls\<close>

datatype lru_op = OpVictim | OpPin frame_id_t | OpUnpin frame_id_t

fun lru_step :: "lru_op \<Rightarrow> LRUReplacer \<Rightarrow> LRUReplacer" where
  "lru_step OpVictim r = snd (Victim r)"
| "lru_step (OpPin f) r = Pin f r"
| "lru_step (OpUnpin f) r = Unpin f r"

text \<open>
  The specification's notion of recency, written from its words: \<open>entered ops f\<close> is
  the position in the history \<open>ops\<close> (oldest call first) of the call by which the frame
  \<open>f\<close> last entered the evictable set. It is kept beside the replacer, which never
  reads it.
\<close>

fun lru_run :: "lru_op list \<Rightarrow> LRUReplacer \<times> (frame_id_t \<Rightarrow> nat) \<times> nat
                \<Rightarrow> LRUReplacer \<times> (frame_id_t \<Rightarrow> nat) \<times> nat" where
  "lru_run [] c = c"
| "lru_run (o1 # ops) (r, entered, clock) =
     lru_run ops
       (lru_step o1 r,
        (case o1 of
           OpUnpin f \<Rightarrow>
             if f \<notin> set (lru_list r) \<and> f \<in> set (lru_list (Unpin f r))
             then entered(f := clock) else entered
         | _ \<Rightarrow> entered),
        Suc clock)"

text \<open>
  The invariant of a history: the list is in order of entry, newest first, and every
  entry position lies in the past.
\<close>

definition lru_rec :: "LRUReplacer \<times> (frame_id_t \<Rightarrow> nat) \<times> nat \<Rightarrow> bool" where
  "lru_rec c \<longleftrightarrow> (case c of (r, entered, clock) \<Rightarrow>
     lru_inv r \<and> sorted_wrt (\<lambda>a b. entered b < entered a) (lru_list r)
     \<and> (\<forall>f \<in> set (lru_list r). entered f < clock))"


section \<open>Buffer pool manager instance (src/buffer/buffer_pool_manager_instance.cpp)\<close>

text \<open>
  Modelled from the spec: a \<open>Page\<close> (\<open>storage/page/page.h\<close> is not among the sources) has
  a page id, a pin count, a dirty flag and its bytes. The bytes are a value of a type
  \<open>'d\<close> with a zero, the all-zero block.
\<close>

record 'd Page =
  page_id :: page_id_t
  pin_count :: int
  is_dirty :: bool
  data :: 'd

text \<open>
  Modelled from the spec: \<open>Page::ResetMemory\<close> (\<open>storage/page/page.h\<close> is not among the
  sources) zeroes the memory of the page.
\<close>

definition ResetMemory :: "'d::zero Page \<Rightarrow> 'd Page" where
  "ResetMemory page = page\<lparr>data := 0\<rparr>"

text \<open>
  Modelled from the spec: the disk manager is an external collaborator with synchronous,
  infallible \<open>ReadPage\<close> and \<open>WritePage\<close>. It is a store of blocks and the log of the
  calls it received, oldest first. \<open>DeallocatePage\<close> of the buffer pool (declared in the
  header, not among the sources) is the disk-side release of a page id; its call is
  recorded in the same log.
\<close>

datatype 'd disk_event = Wrote page_id_t 'd | Read page_id_t | Deallocated page_id_t

record 'd DiskManager =
  disk_pages :: "page_id_t \<Rightarrow> 'd"
  disk_log :: "'d disk_event list"

definition WritePage :: "page_id_t \<Rightarrow> 'd \<Rightarrow> 'd DiskManager \<Rightarrow> 'd DiskManager" where
  "WritePage p d dm =
     dm\<lparr>disk_pages := (disk_pages dm)(p := d), disk_log := disk_log dm @ [Wrote p d]\<rparr>"

definition ReadPage :: "page_id_t \<Rightarrow> 'd DiskManager \<Rightarrow> 'd \<times> 'd DiskManager" where
  "ReadPage p dm = (disk_pages dm p, dm\<lparr>disk_log := disk_log dm @ [Read p]\<rparr>)"

text \<open>
  \<open>page_table_\<close> is an \<open>unordered_map\<close>: an association list with \<open>map_of\<close> for
  \<open>find\<close>, \<open>AList.delete\<close> for \<open>erase\<close> and \<open>AList.update\<close> for assignment through
  \<open>operator[]\<close>; the order of the list is the (unspecified) iteration order.
\<close>

record 'd BufferPoolManagerInstance =
  pool_size :: nat
  num_instances :: nat
  instance_index :: nat
  next_page_id :: page_id_t
  pages :: "'d Page list"
  page_table :: "(page_id_t \<times> frame_id_t) list"
  free_list :: "frame_id_t list"
  replacer :: LRUReplacer
  disk_manager :: "'d DiskManager"

text \<open>
  The constructor. A default-constructed \<open>Page\<close> has \<open>INVALID_PAGE_ID\<close>, pin count 0,
  a clear dirty flag and zeroed memory.
\<close>

definition new_Page :: "'d::zero Page" where
  "new_Page = \<lparr>page_id = INVALID_PAGE_ID, pin_count = 0, is_dirty = False, data = 0\<rparr>"

definition new_BufferPoolManagerInstance ::
  "nat \<Rightarrow> nat \<Rightarrow> nat \<Rightarrow> 'd DiskManager \<Rightarrow> ('d::zero) BufferPoolManagerInstance" where
  "new_BufferPoolManagerInstance psize n idx dm =
     \<lparr>pool_size = psize, num_instances = n, instance_index = idx, next_page_id = int idx,
      pages = replicate psize new_Page, page_table = [],
      free_list = map int [0..<psize], replacer = new_LRUReplacer psize, disk_manager = dm\<rparr>"

text \<open>
  \<open>&pages_[frame_id]\<close>: an index outside the array is undefined behaviour in the source;
  here it is \<open>None\<close>, and so is every operation that meets it or fails an assertion.
\<close>

definition frame_at :: "'d BufferPoolManagerInstance \<Rightarrow> frame_id_t \<Rightarrow> 'd Page option" where
  "frame_at s frame_id =
     (if 0 \<le> frame_id \<and> nat frame_id < length (pages s)
      then Some (pages s ! nat frame_id) else None)"

definition set_frame ::
  "frame_id_t \<Rightarrow> 'd Page \<Rightarrow> 'd BufferPoolManagerInstance \<Rightarrow> 'd BufferPoolManagerInstance" where
  "set_frame frame_id page s = s\<lparr>pages := (pages s)[nat frame_id := page]\<rparr>"

text \<open>
  Modelled from the spec: \<open>DeallocatePage\<close> (its body is not among the sources) is the
  disk-side release of a page id; the disk manager's log records the call.
\<close>

definition DeallocatePage ::
  "page_id_t \<Rightarrow> 'd BufferPoolManagerInstance \<Rightarrow> 'd BufferPoolManagerInstance" where
  "DeallocatePage p s =
     s\<lparr>disk_manager := (disk_manager s)\<lparr>disk_log := disk_log (disk_manager s) @ [Deallocated p]\<rparr>\<rparr>"

text \<open>
  \<open>ValidatePageId\<close> asserts \<open>page_id % num_instances_ == instance_index_\<close>; the
  operands are an \<open>int32_t\<close> and a \<open>uint32_t\<close>, so the remainder is taken on the
  unsigned reading of \<open>page_id\<close>.
\<close>

definition ValidatePageId :: "'d BufferPoolManagerInstance \<Rightarrow> page_id_t \<Rightarrow> bool" where
  "ValidatePageId s p \<longleftrightarrow> nat (p mod 2 ^ 32) mod num_instances s = instance_index s"

definition AllocatePage ::
  "'d BufferPoolManagerInstance \<Rightarrow> (page_id_t \<times> 'd BufferPoolManagerInstance) option" where
  "AllocatePage s =
     (let next = next_page_id s;
          s' = s\<lparr>next_page_id := next_page_id s + int (num_instances s)\<rparr>
      in if ValidatePageId s' next then Some (next, s') else None)"

definition FlushPgImp ::
  "'d BufferPoolManagerInstance \<Rightarrow> page_id_t \<Rightarrow> (bool \<times> 'd BufferPoolManagerInstance) option" where
  "FlushPgImp s p =
     (if p = INVALID_PAGE_ID then Some (False, s)
      else case map_of (page_table s) p of
        None \<Rightarrow> Some (False, s)
      | Some frame_id \<Rightarrow>
          (case frame_at s frame_id of
             None \<Rightarrow> None
           | Some page \<Rightarrow>
               Some (True,
                 set_frame frame_id (page\<lparr>is_dirty := False\<rparr>)
                   (s\<lparr>disk_manager := WritePage p (data page) (disk_manager s)\<rparr>))))"

fun FlushAll_loop ::
  "(page_id_t \<times> frame_id_t) list \<Rightarrow> 'd BufferPoolManagerInstance
     \<Rightarrow> 'd BufferPoolManagerInstance option" where
  "FlushAll_loop [] s = Some s"
| "FlushAll_loop ((p, frame_id) # rest) s =
     (case frame_at s frame_id of
        None \<Rightarrow> None
      | Some page \<Rightarrow>
          FlushAll_loop rest
            (if is_dirty page
             then s\<lparr>disk_manager := WritePage p (data page) (disk_manager s)\<rparr>
             else s))"

definition FlushAllPgsImp ::
  "'d BufferPoolManagerInstance \<Rightarrow> 'd BufferPoolManagerInstance option" where
  "FlushAllPgsImp s = FlushAll_loop (page_table s) s"

text \<open>
  \<open>NewPgImp\<close> returns the new page id and the frame of the page (the \<open>Page *\<close>), or
  \<open>None\<close> for \<open>nullptr\<close>. The frame is chosen first, then the page is constructed.
\<close>

definition NewPg_construct ::
  "frame_id_t \<Rightarrow> 'd::zero Page \<Rightarrow> 'd BufferPoolManagerInstance
     \<Rightarrow> ((page_id_t \<times> frame_id_t) option \<times> 'd BufferPoolManagerInstance) option" where
  "NewPg_construct frame_id page s =
     (case AllocatePage s of
        None \<Rightarrow> None
      | Some (new_page_id, s1) \<Rightarrow>
          (let page' = ResetMemory (page\<lparr>page_id := new_page_id, pin_count := 1, is_dirty := False\<rparr>);
               s2 = set_frame frame_id page' s1;
               s3 = s2\<lparr>page_table := AList.update new_page_id frame_id (page_table s2)\<rparr>;
               s4 = s3\<lparr>replacer := Pin frame_id (replacer s3)\<rparr>
           in Some (Some (new_page_id, frame_id), s4)))"

definition NewPgImp ::
  "'d::zero BufferPoolManagerInstance
     \<Rightarrow> ((page_id_t \<times> frame_id_t) option \<times> 'd BufferPoolManagerInstance) option" where
  "NewPgImp s =
     (if free_list s \<noteq> [] then
        (let frame_id = hd (free_list s);
             s1 = s\<lparr>free_list := tl (free_list s)\<rparr>
         in case frame_at s1 frame_id of
              None \<Rightarrow> None
            | Some page \<Rightarrow> NewPg_construct frame_id page s1)
      else
        (case Victim (replacer s) of
           (Some frame_id, r) \<Rightarrow>
             (let s1 = s\<lparr>replacer := r\<rparr>
              in case frame_at s1 frame_id of
                   None \<Rightarrow> None
                 | Some page \<Rightarrow>
                     (let s2 = (if is_dirty page
                                then s1\<lparr>disk_manager :=
                                          WritePage (page_id page) (data page) (disk_manager s1)\<rparr>
                                else s1);
                          s3 = s2\<lparr>page_table := AList.delete (page_id page) (page_table s2)\<rparr>
                      in NewPg_construct frame_id page s3))
         | (None, r) \<Rightarrow> Some (None, s\<lparr>replacer := r\<rparr>)))"

text \<open>\<open>FetchPgImp\<close> returns the frame of the page, or \<open>None\<close> for \<open>nullptr\<close>.\<close>

definition FetchPg_load ::
  "page_id_t \<Rightarrow> frame_id_t \<Rightarrow> 'd Page \<Rightarrow> 'd BufferPoolManagerInstance
     \<Rightarrow> (frame_id_t option \<times> 'd BufferPoolManagerInstance) option" where
  "FetchPg_load p frame_id page s =
     (let (bytes, dm) = ReadPage p (disk_manager s);
          page' = page\<lparr>page_id := p, pin_count := 1, is_dirty := False, data := bytes\<rparr>;
          s1 = set_frame frame_id page' (s\<lparr>disk_manager := dm\<rparr>);
          s2 = s1\<lparr>page_table := AList.update p frame_id (page_table s1)\<rparr>;
          s3 = s2\<lparr>replacer := Pin frame_id (replacer s2)\<rparr>
      in Some (Some frame_id, s3))"

definition FetchPgImp ::
  "'d BufferPoolManagerInstance \<Rightarrow> page_id_t
     \<Rightarrow> (frame_id_t option \<times> 'd BufferPoolManagerInstance) option" where
  "FetchPgImp s p =
     (case map_of (page_table s) p of
        Some frame_id \<Rightarrow>
          (case frame_at s frame_id of
             None \<Rightarrow> None
           | Some page \<Rightarrow>
               (let s1 = set_frame frame_id (page\<lparr>pin_count := pin_count page + 1\<rparr>) s;
                    s2 = s1\<lparr>replacer := Pin frame_id (replacer s1)\<rparr>
                in Some (Some frame_id, s2)))
      | None \<Rightarrow>
          (if free_list s \<noteq> [] then
             (let frame_id = hd (free_list s);
                  s1 = s\<lparr>free_list := tl (free_list s)\<rparr>
              in case frame_at s1 frame_id of
                   None \<Rightarrow> None
                 | Some page \<Rightarrow> FetchPg_load p frame_id page s1)
           else
             (case Victim (replacer s) of
                (Some frame_id, r) \<Rightarrow>
                  (let s1 = s\<lparr>replacer := r\<rparr>
                   in case frame_at s1 frame_id of
                        None \<Rightarrow> None
                      | Some page \<Rightarrow>
                          (let s2 = (if is_dirty page
                                     then s1\<lparr>disk_manager :=
                                               WritePage (page_id page) (data page) (disk_manager s1)\<rparr>
                                     else s1);
                               s3 = s2\<lparr>page_table := AList.delete (page_id page) (page_table s2)\<rparr>
                           in FetchPg_load p frame_id page s3))
              | (None, r) \<Rightarrow> Some (None, s\<lparr>replacer := r\<rparr>))))"

definition DeletePgImp ::
  "'d::zero BufferPoolManagerInstance \<Rightarrow> page_id_t
     \<Rightarrow> (bool \<times> 'd BufferPoolManagerInstance) option" where
  "DeletePgImp s p =
     (let s0 = DeallocatePage p s
      in case map_of (page_table s0) p of
           None \<Rightarrow> Some (True, s0)
         | Some frame_id \<Rightarrow>
             (case frame_at s0 frame_id of
                None \<Rightarrow> None
              | Some page \<Rightarrow>
                  if pin_count page > 0 then Some (False, s0)
                  else
                    (let s1 = (if is_dirty page
                               then s0\<lparr>disk_manager :=
                                         WritePage (page_id page) (data page) (disk_manager s0)\<rparr>
                               else s0);
                         s2 = s1\<lparr>replacer := Pin frame_id (replacer s1)\<rparr>;
                         s3 = s2\<lparr>page_table := AList.delete (page_id page) (page_table s2)\<rparr>;
                         page' = ResetMemory
                                   (page\<lparr>is_dirty := False, pin_count := 0,
                                         page_id := INVALID_PAGE_ID\<rparr>);
                         s4 = set_frame frame_id page' s3;
                         s5 = s4\<lparr>free_list := free_list s4 @ [frame_id]\<rparr>
                     in Some (True, s5))))"

definition UnpinPgImp ::
  "'d BufferPoolManagerInstance \<Rightarrow> page_id_t \<Rightarrow> bool
     \<Rightarrow> (bool \<times> 'd BufferPoolManagerInstance) option" where
  "UnpinPgImp s p dirty =
     (case map_of (page_table s) p of
        None \<Rightarrow> Some (False, s)
      | Some frame_id \<Rightarrow>
          (case frame_at s frame_id of
             None \<Rightarrow> None
           | Some page \<Rightarrow>
               if pin_count page \<le> 0 then Some (False, s)
               else
                 (let page1 = page\<lparr>pin_count := pin_count page - 1\<rparr>;
                      page2 = (if dirty then page1\<lparr>is_dirty := True\<rparr> else page1);
                      s1 = set_frame frame_id page2 s;
                      s2 = (if pin_count page2 \<le> 0
                            then s1\<lparr>replacer := Unpin frame_id (replacer s1)\<rparr>
                            else s1)
                  in Some (True, s2))))"

text \<open>
  The part of the buffer pool's consistency the properties below rest on: the frame array
  has \<open>pool_size\<close> entries, the replacer has that capacity and holds frames of the array,
  each once, the page table has one entry per page id and sends it to a frame of the array
  that holds that page, and no pin count is negative.
\<close>

definition bpm_inv :: "'d BufferPoolManagerInstance \<Rightarrow> bool" where
  "bpm_inv s \<longleftrightarrow>
     length (pages s) = pool_size s
     \<and> max_size (replacer s) = pool_size s
     \<and> lru_inv (replacer s)
     \<and> (\<forall>f \<in> set (lru_list (replacer s)). 0 \<le> f \<and> f < int (pool_size s))
     \<and> (\<forall>f \<in> set (free_list s). 0 \<le> f \<and> f < int (pool_size s))
     \<and> distinct (map fst (page_table s))
     \<and> (\<forall>(p, f) \<in> set (page_table s).
           0 \<le> f \<and> f < int (pool_size s) \<and> page_id (pages s ! nat f) = p)
     \<and> (\<forall>pg \<in> set (pages s). 0 \<le> pin_count pg)"

text \<open>
  The full consistency of the pool, which every call preserves: beyond \<open>bpm_inv\<close>, no
  frame is listed twice in the free list or reached from two page ids, and a free frame is
  neither in the page table nor in the replacer and holds no unwritten data.
\<close>

definition bpm_consistent :: "'d BufferPoolManagerInstance \<Rightarrow> bool" where
  "bpm_consistent s \<longleftrightarrow>
     bpm_inv s
     \<and> distinct (free_list s)
     \<and> distinct (map snd (page_table s))
     \<and> (\<forall>f \<in> set (free_list s).
           f \<notin> snd ` set (page_table s)
           \<and> f \<notin> set (lru_list (replacer s))
           \<and> \<not> is_dirty (pages s ! nat f))"

text \<open>
  A frame that a call has taken out of the free list or out of the replacer and page table,
  and in which it may now install a page.
\<close>

definition bpm_room :: "'d BufferPoolManagerInstance \<Rightarrow> frame_id_t \<Rightarrow> bool" where
  "bpm_room s f \<longleftrightarrow>
     bpm_consistent s \<and> 0 \<le> f \<and> f < int (pool_size s)
     \<and> f \<notin> snd ` set (page_table s) \<and> f \<notin> set (free_list s)"

text \<open>
  The calls a client of the pool can make. A client that holds a pinned page may also
  write into its bytes, which changes the \<open>data\<close> of the frame and nothing else.
\<close>

datatype 'd bpm_call =
    CallNewPage
  | CallFetchPage page_id_t
  | CallUnpinPage page_id_t bool
  | CallDeletePage page_id_t
  | CallFlushPage page_id_t
  | CallFlushAllPages
  | CallWriteBytes page_id_t 'd

definition write_bytes ::
  "page_id_t \<Rightarrow> 'd \<Rightarrow> 'd BufferPoolManagerInstance \<Rightarrow> 'd BufferPoolManagerInstance option" where
  "write_bytes p bytes s =
     (case map_of (page_table s) p of
        None \<Rightarrow> None
      | Some frame_id \<Rightarrow>
          (case frame_at s frame_id of
             None \<Rightarrow> None
           | Some page \<Rightarrow> Some (set_frame frame_id (page\<lparr>data := bytes\<rparr>) s)))"

fun bpm_step ::
  "'d::zero bpm_call \<Rightarrow> 'd BufferPoolManagerInstance \<Rightarrow> 'd BufferPoolManagerInstance option" where
  "bpm_step CallNewPage s = map_option snd (NewPgImp s)"
| "bpm_step (CallFetchPage p) s = map_option snd (FetchPgImp s p)"
| "bpm_step (CallUnpinPage p dirty) s = map_option snd (UnpinPgImp s p dirty)"
| "bpm_step (CallDeletePage p) s = map_option snd (DeletePgImp s p)"
| "bpm_step (CallFlushPage p) s = map_option snd (FlushPgImp s p)"
| "bpm_step CallFlushAllPages s = FlushAllPgsImp s"
| "bpm_step (CallWriteBytes p bytes) s = write_bytes p bytes s"

fun bpm_run ::
  "'d::zero bpm_call list \<Rightarrow> 'd BufferPoolManagerInstance \<Rightarrow> 'd BufferPoolManagerInstance option" where
  "bpm_run [] s = Some s"
| "bpm_run (c # cs) s = (case bpm_step c s of None \<Rightarrow> None | Some s' \<Rightarrow> bpm_run cs s')"

text \<open>The writes a flush of all pages issues for the entries \<open>xs\<close> of the page table, in order.\<close>

definition dirty_writes ::
  "'d BufferPoolManagerInstance \<Rightarrow> (page_id_t \<times> frame_id_t) list \<Rightarrow> 'd disk_event list" where
  "dirty_writes s xs =
     map (\<lambda>(p, f). Wrote p (data (pages s ! nat f)))
       (filter (\<lambda>(p, f). is_dirty (pages s ! nat f)) xs)"

text \<open>
  A pool of two frames after \<open>NewPage\<close> twice (pages 0 and 1), a write of the caller into
  page 0, and \<open>UnpinPage(0, true)\<close>: page 0 is dirty and evictable, page 1 is pinned.
\<close>

definition example_disk :: "nat DiskManager" where
  "example_disk = \<lparr>disk_pages = (\<lambda>_. 0), disk_log = []\<rparr>"

definition example_pool :: "nat BufferPoolManagerInstance" where
  "example_pool =
     \<lparr>pool_size = 2, num_instances = 1, instance_index = 0, next_page_id = 2,
      pages = [\<lparr>page_id = 0, pin_count = 0, is_dirty = True, data = 7\<rparr>,
               \<lparr>page_id = 1, pin_count = 1, is_dirty = False, data = 0\<rparr>],
      page_table = [(0, 0), (1, 1)], free_list = [],
      replacer = \<lparr>max_size = 2, lru_list = [0], lru_hash = {0}\<rparr>,
      disk_manager = example_disk\<rparr>"


section \<open>Lock manager (src/concurrency/lock_manager.cpp)\<close>

text \<open>
  Modelled from the spec: the lock modes, transaction states, isolation levels and abort
  reasons (\<open>concurrency/lock_manager.h\<close> and \<open>concurrency/transaction.h\<close> are not among
  the sources), under the names the source uses for them.
\<close>

type_synonym txn_id_t = int

datatype LockMode = SHARED | EXCLUSIVE

datatype TransactionState = GROWING | SHRINKING | COMMITTED | ABORTED

datatype IsolationLevel = READ_UNCOMMITTED | REPEATABLE_READ | READ_COMMITTED

datatype AbortReason = LOCK_ON_SHRINKING | UPGRADE_CONFLICT

text \<open>A record id is a page id and a slot number.\<close>

type_synonym RID = "page_id_t \<times> nat"

definition INVALID_TXN_ID :: txn_id_t where
  "INVALID_TXN_ID = -1"

text \<open>
  Modelled from the spec: a lock request and the request queue of a record id (declared in
  \<open>concurrency/lock_manager.h\<close>, which is not among the sources), with the fields the
  source reads and writes. Field names are those of the source without the trailing
  underscore; the \<open>txn_id_\<close> of a request is \<open>rq_txn_id\<close>.
\<close>

record LockRequest =
  rq_txn_id :: txn_id_t
  lock_mode :: LockMode
  granted :: bool

text \<open>
  The condition variable \<open>cv_\<close> of a queue is represented by the number of \<open>notify_all\<close>
  calls it has received.
\<close>

record LockRequestQueue =
  request_queue :: "LockRequest list"
  cv_notified :: nat
  upgrading :: txn_id_t

text \<open>
  Modelled from the spec: a \<open>Transaction\<close> (\<open>concurrency/transaction.h\<close> is not among the
  sources) exposes its id, state, isolation level and the sets of shared-locked and
  exclusive-locked record ids.
\<close>

record Transaction =
  txn_id :: txn_id_t
  state :: TransactionState
  isolation_level :: IsolationLevel
  shared_lock_set :: "RID set"
  exclusive_lock_set :: "RID set"

text \<open>
  The transaction objects are shared between the caller, which passes a \<open>Transaction *\<close>,
  and \<open>TransactionManager::GetTransaction\<close>, which finds them by id. They live in one
  store, keyed by transaction id; a pointer to a transaction is its id, and a pointer that
  finds nothing is a null pointer, whose use is undefined (\<open>None\<close>).
  \<open>lock_table_[rid]\<close> creates an empty queue for a new record id, so the table is total.
\<close>

record LockManager =
  lock_table :: "RID \<Rightarrow> LockRequestQueue"
  txn_map :: "txn_id_t \<Rightarrow> Transaction option"

definition new_LockRequestQueue :: LockRequestQueue where
  "new_LockRequestQueue = \<lparr>request_queue = [], cv_notified = 0, upgrading = INVALID_TXN_ID\<rparr>"

definition new_LockRequest :: "txn_id_t \<Rightarrow> LockMode \<Rightarrow> LockRequest" where
  "new_LockRequest tid m = \<lparr>rq_txn_id = tid, lock_mode = m, granted = False\<rparr>"

definition notify_all :: "LockRequestQueue \<Rightarrow> LockRequestQueue" where
  "notify_all q = q\<lparr>cv_notified := Suc (cv_notified q)\<rparr>"

definition CheckAbort :: "Transaction \<Rightarrow> bool" where
  "CheckAbort txn \<longleftrightarrow> state txn = ABORTED"

text \<open>
  The loop of \<open>NeedWait\<close> from \<open>iter\<close> on, with the remaining queue \<open>rest\<close>, the mode of
  \<open>self\<close> and the running values of the store, \<open>need_wait\<close> and \<open>has_aborted\<close>. It stops
  at the first request of the transaction \<open>tid\<close>; running off the end of the list is
  undefined in the source.
\<close>

fun NeedWait_loop ::
  "txn_id_t \<Rightarrow> LockMode \<Rightarrow> LockRequest list
     \<Rightarrow> (txn_id_t \<Rightarrow> Transaction option) \<times> bool \<times> bool
     \<Rightarrow> ((txn_id_t \<Rightarrow> Transaction option) \<times> bool \<times> bool) option" where
  "NeedWait_loop tid self_mode [] acc = None"
| "NeedWait_loop tid self_mode (iter # rest) (txns, need_wait, has_aborted) =
     (if rq_txn_id iter = tid then Some (txns, need_wait, has_aborted)
      else if rq_txn_id iter > tid then
        (let situation1 = (self_mode = SHARED \<and> lock_mode iter = EXCLUSIVE);
             situation2 = (self_mode = EXCLUSIVE)
         in if situation1 \<or> situation2 then
              (case txns (rq_txn_id iter) of
                 None \<Rightarrow> None
               | Some younger_txn \<Rightarrow>
                   if state younger_txn \<noteq> ABORTED
                   then NeedWait_loop tid self_mode rest
                          (txns(rq_txn_id iter \<mapsto> younger_txn\<lparr>state := ABORTED\<rparr>), need_wait, True)
                   else NeedWait_loop tid self_mode rest (txns, need_wait, has_aborted))
            else NeedWait_loop tid self_mode rest (txns, need_wait, has_aborted))
      else
        NeedWait_loop tid self_mode rest
          (txns,
           (need_wait \<or> self_mode = EXCLUSIVE) \<or> lock_mode iter = EXCLUSIVE,
           has_aborted))"

text \<open>
  \<open>NeedWait\<close> returns \<open>need_wait\<close> with the store and the queue as it leaves them.
  \<open>back()\<close> and \<open>begin()\<close> of an empty queue are undefined.
\<close>

definition NeedWait ::
  "txn_id_t \<Rightarrow> (txn_id_t \<Rightarrow> Transaction option) \<Rightarrow> LockRequestQueue
     \<Rightarrow> (bool \<times> (txn_id_t \<Rightarrow> Transaction option) \<times> LockRequestQueue) option" where
  "NeedWait tid txns lock_queue =
     (if request_queue lock_queue = [] then None
      else
        (let self = last (request_queue lock_queue);
             first_iter = hd (request_queue lock_queue)
         in if (if lock_mode self = SHARED
                then rq_txn_id first_iter = tid \<or> lock_mode first_iter = SHARED
                else rq_txn_id first_iter = tid)
            then Some (False, txns, lock_queue)
            else
              (case NeedWait_loop tid (lock_mode self) (request_queue lock_queue)
                      (txns, False, False) of
                 None \<Rightarrow> None
               | Some (txns', need_wait, has_aborted) \<Rightarrow>
                   Some (need_wait, txns',
                         if has_aborted then notify_all lock_queue else lock_queue))))"

fun NeedWaitUpdate_loop ::
  "txn_id_t \<Rightarrow> LockRequest list
     \<Rightarrow> (txn_id_t \<Rightarrow> Transaction option) \<times> bool \<times> bool
     \<Rightarrow> ((txn_id_t \<Rightarrow> Transaction option) \<times> bool \<times> bool) option" where
  "NeedWaitUpdate_loop tid [] acc = None"
| "NeedWaitUpdate_loop tid (iter # rest) (txns, need_wait, has_aborted) =
     (if rq_txn_id iter = tid then Some (txns, need_wait, has_aborted)
      else if rq_txn_id iter > tid then
        (case txns (rq_txn_id iter) of
           None \<Rightarrow> None
         | Some younger_txn \<Rightarrow>
             if state younger_txn \<noteq> ABORTED
             then NeedWaitUpdate_loop tid rest
                    (txns(rq_txn_id iter \<mapsto> younger_txn\<lparr>state := ABORTED\<rparr>), need_wait, True)
             else NeedWaitUpdate_loop tid rest (txns, need_wait, has_aborted))
      else NeedWaitUpdate_loop tid rest (txns, True, has_aborted))"

definition NeedWaitUpdate ::
  "txn_id_t \<Rightarrow> (txn_id_t \<Rightarrow> Transaction option) \<Rightarrow> LockRequestQueue
     \<Rightarrow> (bool \<times> (txn_id_t \<Rightarrow> Transaction option) \<times> LockRequestQueue) option" where
  "NeedWaitUpdate tid txns lock_queue =
     (case NeedWaitUpdate_loop tid (request_queue lock_queue) (txns, False, False) of
        None \<Rightarrow> None
      | Some (txns', need_wait, has_aborted) \<Rightarrow>
          Some (need_wait, txns',
                if has_aborted then notify_all lock_queue else lock_queue))"

text \<open>
  A lock call ends by returning a boolean or by throwing a
  \<open>TransactionAbortException\<close>, or it blocks in \<open>cv_.wait\<close>. A blocked call is resumed
  by its \<open>wakeup\<close> function on the state the other threads have left.
\<close>

datatype lock_result = Returned bool | Threw AbortReason | Waiting

text \<open>
  The grant loops of \<open>LockShared\<close> and \<open>LockExclusive\<close> iterate by reference
  (\<open>auto &iter\<close>) and write to the entries of the queue.
\<close>

definition grant_all :: "txn_id_t \<Rightarrow> LockRequest list \<Rightarrow> LockRequest list" where
  "grant_all tid rq = map (\<lambda>iter. if rq_txn_id iter = tid then iter\<lparr>granted := True\<rparr> else iter) rq"

definition Lock_grant ::
  "txn_id_t \<Rightarrow> RID \<Rightarrow> LockManager \<Rightarrow> (lock_result \<times> LockManager) option" where
  "Lock_grant tid rid s =
     (case txn_map s tid of
        None \<Rightarrow> None
      | Some txn \<Rightarrow>
          (let q = lock_table s rid;
               q' = q\<lparr>request_queue := grant_all tid (request_queue q)\<rparr>
           in Some (Returned True,
                s\<lparr>lock_table := (lock_table s)(rid := q'),
                  txn_map := (txn_map s)(tid \<mapsto> txn\<lparr>state := GROWING\<rparr>)\<rparr>)))"

definition Lock_wait ::
  "txn_id_t \<Rightarrow> RID \<Rightarrow> LockManager \<Rightarrow> (lock_result \<times> LockManager) option" where
  "Lock_wait tid rid s =
     (case NeedWait tid (txn_map s) (lock_table s rid) of
        None \<Rightarrow> None
      | Some (need_wait, txns', q') \<Rightarrow>
          (let s' = s\<lparr>lock_table := (lock_table s)(rid := q'), txn_map := txns'\<rparr>
           in if need_wait then Some (Waiting, s') else Lock_grant tid rid s'))"

definition Lock_wakeup ::
  "txn_id_t \<Rightarrow> RID \<Rightarrow> LockManager \<Rightarrow> (lock_result \<times> LockManager) option" where
  "Lock_wakeup tid rid s =
     (case txn_map s tid of
        None \<Rightarrow> None
      | Some txn \<Rightarrow> if CheckAbort txn then Some (Returned False, s) else Lock_wait tid rid s)"

definition LockShared ::
  "txn_id_t \<Rightarrow> RID \<Rightarrow> LockManager \<Rightarrow> (lock_result \<times> LockManager) option" where
  "LockShared tid rid s =
     (case txn_map s tid of
        None \<Rightarrow> None
      | Some txn \<Rightarrow>
          if CheckAbort txn then Some (Returned False, s)
          else if isolation_level txn = READ_UNCOMMITTED
          then Some (Returned False, s\<lparr>txn_map := (txn_map s)(tid \<mapsto> txn\<lparr>state := ABORTED\<rparr>)\<rparr>)
          else if state txn \<noteq> GROWING
          then Some (Threw LOCK_ON_SHRINKING,
                     s\<lparr>txn_map := (txn_map s)(tid \<mapsto> txn\<lparr>state := ABORTED\<rparr>)\<rparr>)
          else if rid \<in> shared_lock_set txn then Some (Returned True, s)
          else
            (let q = lock_table s rid;
                 q' = q\<lparr>request_queue := request_queue q @ [new_LockRequest tid SHARED]\<rparr>;
                 txn' = txn\<lparr>shared_lock_set := insert rid (shared_lock_set txn)\<rparr>
             in Lock_wait tid rid
                  (s\<lparr>lock_table := (lock_table s)(rid := q'),
                     txn_map := (txn_map s)(tid \<mapsto> txn')\<rparr>)))"

definition LockExclusive ::
  "txn_id_t \<Rightarrow> RID \<Rightarrow> LockManager \<Rightarrow> (lock_result \<times> LockManager) option" where
  "LockExclusive tid rid s =
     (case txn_map s tid of
        None \<Rightarrow> None
      | Some txn \<Rightarrow>
          if CheckAbort txn then Some (Returned False, s)
          else if state txn \<noteq> GROWING
          then Some (Threw LOCK_ON_SHRINKING,
                     s\<lparr>txn_map := (txn_map s)(tid \<mapsto> txn\<lparr>state := ABORTED\<rparr>)\<rparr>)
          else if rid \<in> exclusive_lock_set txn then Some (Returned True, s)
          else
            (let q = lock_table s rid;
                 q' = q\<lparr>request_queue := request_queue q @ [new_LockRequest tid EXCLUSIVE]\<rparr>;
                 txn' = txn\<lparr>exclusive_lock_set := insert rid (exclusive_lock_set txn)\<rparr>
             in Lock_wait tid rid
                  (s\<lparr>lock_table := (lock_table s)(rid := q'),
                     txn_map := (txn_map s)(tid \<mapsto> txn')\<rparr>)))"

text \<open>
  The final loop of \<open>LockUpgrade\<close> iterates by value (\<open>auto iter\<close>): \<open>iter\<close> is a copy
  of the entry, the writes to \<open>granted_\<close> and \<open>lock_mode_\<close> go to the copy, and the copy
  is dropped at the \<open>break\<close>. Only the writes to the transaction persist.
\<close>

fun LockUpgrade_loop :: "LockRequest list \<Rightarrow> RID \<Rightarrow> Transaction \<Rightarrow> Transaction" where
  "LockUpgrade_loop [] rid txn = txn"
| "LockUpgrade_loop (entry # rest) rid txn =
     (let iter = entry in
      if rq_txn_id iter = txn_id txn then
        (let iter1 = iter\<lparr>granted := True\<rparr>;
             iter2 = iter1\<lparr>lock_mode := EXCLUSIVE\<rparr>;
             txn1 = txn\<lparr>state := GROWING\<rparr>;
             txn2 = txn1\<lparr>shared_lock_set := shared_lock_set txn1 - {rid}\<rparr>;
             txn3 = txn2\<lparr>exclusive_lock_set := insert rid (exclusive_lock_set txn2)\<rparr>
         in txn3)
      else LockUpgrade_loop rest rid txn)"

definition LockUpgrade_grant ::
  "txn_id_t \<Rightarrow> RID \<Rightarrow> LockManager \<Rightarrow> (lock_result \<times> LockManager) option" where
  "LockUpgrade_grant tid rid s =
     (case txn_map s tid of
        None \<Rightarrow> None
      | Some txn \<Rightarrow>
          Some (Returned True,
            s\<lparr>txn_map := (txn_map s)
                 (tid \<mapsto> LockUpgrade_loop (request_queue (lock_table s rid)) rid txn)\<rparr>))"

definition LockUpgrade_wait ::
  "txn_id_t \<Rightarrow> RID \<Rightarrow> LockManager \<Rightarrow> (lock_result \<times> LockManager) option" where
  "LockUpgrade_wait tid rid s =
     (case NeedWaitUpdate tid (txn_map s) (lock_table s rid) of
        None \<Rightarrow> None
      | Some (need_wait, txns', q') \<Rightarrow>
          (let s' = s\<lparr>lock_table := (lock_table s)(rid := q'), txn_map := txns'\<rparr>
           in if need_wait then Some (Waiting, s') else LockUpgrade_grant tid rid s'))"

definition LockUpgrade_wakeup ::
  "txn_id_t \<Rightarrow> RID \<Rightarrow> LockManager \<Rightarrow> (lock_result \<times> LockManager) option" where
  "LockUpgrade_wakeup tid rid s =
     (case txn_map s tid of
        None \<Rightarrow> None
      | Some txn \<Rightarrow>
          if CheckAbort txn then Some (Returned False, s) else LockUpgrade_wait tid rid s)"

definition LockUpgrade ::
  "txn_id_t \<Rightarrow> RID \<Rightarrow> LockManager \<Rightarrow> (lock_result \<times> LockManager) option" where
  "LockUpgrade tid rid s =
     (case txn_map s tid of
        None \<Rightarrow> None
      | Some txn \<Rightarrow>
          if CheckAbort txn then Some (Returned False, s)
          else if state txn \<noteq> GROWING
          then Some (Threw UPGRADE_CONFLICT,
                     s\<lparr>txn_map := (txn_map s)(tid \<mapsto> txn\<lparr>state := ABORTED\<rparr>)\<rparr>)
          else if rid \<in> exclusive_lock_set txn then Some (Returned True, s)
          else LockUpgrade_wait tid rid s)"

text \<open>
  \<open>Unlock\<close> (lines 151 to 188) erases the first request of the transaction from the
  queue and notifies the queue's condition variable; the waiters it wakes re-run their
  \<open>NeedWait\<close> through their \<open>wakeup\<close> function.
\<close>

fun erase_first :: "txn_id_t \<Rightarrow> LockRequest list \<Rightarrow> LockRequest list" where
  "erase_first tid [] = []"
| "erase_first tid (iter # rest) = (if rq_txn_id iter = tid then rest else iter # erase_first tid rest)"

definition Unlock ::
  "txn_id_t \<Rightarrow> RID \<Rightarrow> LockManager \<Rightarrow> (bool \<times> LockManager) option" where
  "Unlock tid rid s =
     (case txn_map s tid of
        None \<Rightarrow> None
      | Some txn \<Rightarrow>
          if rid \<notin> shared_lock_set txn \<and> rid \<notin> exclusive_lock_set txn then Some (False, s)
          else
            (let lock_queue = lock_table s rid;
                 q1 = (if upgrading lock_queue = tid
                       then lock_queue\<lparr>upgrading := INVALID_TXN_ID\<rparr> else lock_queue);
                 found = (tid \<in> rq_txn_id ` set (request_queue q1));
                 q2 = (if found
                       then notify_all (q1\<lparr>request_queue := erase_first tid (request_queue q1)\<rparr>)
                       else q1);
                 s1 = s\<lparr>lock_table := (lock_table s)(rid := q2)\<rparr>
             in if \<not> found then Some (False, s1)
                else
                  (let txn1 = (if state txn = GROWING \<and> isolation_level txn = REPEATABLE_READ
                               then txn\<lparr>state := SHRINKING\<rparr> else txn);
                       txn2 = txn1\<lparr>shared_lock_set := shared_lock_set txn1 - {rid}\<rparr>;
                       txn3 = txn2\<lparr>exclusive_lock_set := exclusive_lock_set txn2 - {rid}\<rparr>
                   in Some (True, s1\<lparr>txn_map := (txn_map s1)(tid \<mapsto> txn3)\<rparr>))))"

definition new_LockManager :: LockManager where
  "new_LockManager = \<lparr>lock_table = (\<lambda>_. new_LockRequestQueue), txn_map = (\<lambda>_. None)\<rparr>"








text \<open>Example transactions and queues on the record \<open>(0, 0)\<close>.\<close>

definition example_txn :: "txn_id_t \<Rightarrow> Transaction" where
  "example_txn i =
     \<lparr>txn_id = i, state = GROWING, isolation_level = REPEATABLE_READ,
      shared_lock_set = {}, exclusive_lock_set = {}\<rparr>"

definition example_txns :: "txn_id_t \<Rightarrow> Transaction option" where
  "example_txns i = (if i \<in> {1, 2, 3, 5, 7} then Some (example_txn i) else None)"



text \<open>
  Transaction 1 alone holds a shared lock on the record, granted by \<open>LockShared\<close>.
\<close>

definition example_upgrade :: LockManager where
  "example_upgrade =
     \<lparr>lock_table = (\<lambda>_. new_LockRequestQueue)
        ((0, 0) := \<lparr>request_queue = [\<lparr>rq_txn_id = 1, lock_mode = SHARED, granted = True\<rparr>],
                    cv_notified = 0, upgrading = INVALID_TXN_ID\<rparr>),
      txn_map = (\<lambda>_. None)(1 \<mapsto> (example_txn 1)\<lparr>shared_lock_set := {(0, 0)}\<rparr>)\<rparr>"

text \<open>
  A new lock manager with the transactions 1, 2, 3, 5 and 7 begun (\<open>GROWING\<close>,
  \<open>REPEATABLE_READ\<close>, no locks).
\<close>

definition example_lock_manager :: LockManager where
  "example_lock_manager = new_LockManager\<lparr>txn_map := example_txns\<rparr>"


section \<open>Extendible hash table: the directory (src/container/hash/extendible_hash_table.cpp)\<close>


definition MAX_BUCKET_DEPTH :: nat where
  "MAX_BUCKET_DEPTH = 9"

definition DIRECTORY_ARRAY_SIZE :: nat where
  "DIRECTORY_ARRAY_SIZE = 512"

record HashTableDirectoryPage =
  dir_page_id :: page_id_t
  global_depth :: nat
  bucket_page_ids :: "nat \<Rightarrow> page_id_t"
  local_depths :: "nat \<Rightarrow> nat"

definition GetGlobalDepth :: "HashTableDirectoryPage \<Rightarrow> nat" where
  "GetGlobalDepth d = global_depth d"

definition GetGlobalDepthMask :: "HashTableDirectoryPage \<Rightarrow> nat" where
  "GetGlobalDepthMask d = 2 ^ global_depth d - 1"

definition dir_Size :: "HashTableDirectoryPage \<Rightarrow> nat" where
  "dir_Size d = 2 ^ global_depth d"

definition GetBucketPageId :: "nat \<Rightarrow> HashTableDirectoryPage \<Rightarrow> page_id_t option" where
  "GetBucketPageId i d = (if i < DIRECTORY_ARRAY_SIZE then Some (bucket_page_ids d i) else None)"

definition SetBucketPageId ::
  "nat \<Rightarrow> page_id_t \<Rightarrow> HashTableDirectoryPage \<Rightarrow> HashTableDirectoryPage option" where
  "SetBucketPageId i p d =
     (if i < DIRECTORY_ARRAY_SIZE then Some (d\<lparr>bucket_page_ids := (bucket_page_ids d)(i := p)\<rparr>)
      else None)"

definition GetLocalDepth :: "nat \<Rightarrow> HashTableDirectoryPage \<Rightarrow> nat option" where
  "GetLocalDepth i d = (if i < DIRECTORY_ARRAY_SIZE then Some (local_depths d i) else None)"

definition SetLocalDepth ::
  "nat \<Rightarrow> nat \<Rightarrow> HashTableDirectoryPage \<Rightarrow> HashTableDirectoryPage option" where
  "SetLocalDepth i ld d =
     (if i < DIRECTORY_ARRAY_SIZE then Some (d\<lparr>local_depths := (local_depths d)(i := ld)\<rparr>)
      else None)"

definition IncrLocalDepth :: "nat \<Rightarrow> HashTableDirectoryPage \<Rightarrow> HashTableDirectoryPage option" where
  "IncrLocalDepth i d =
     (if i < DIRECTORY_ARRAY_SIZE
      then Some (d\<lparr>local_depths := (local_depths d)(i := local_depths d i + 1)\<rparr>)
      else None)"

text \<open>
  Modelled from the spec: \<open>DecrLocalDepth\<close>. A local depth is unsigned: decrementing zero
  wraps around, which no caller does; it is \<open>None\<close>.
\<close>

definition DecrLocalDepth :: "nat \<Rightarrow> HashTableDirectoryPage \<Rightarrow> HashTableDirectoryPage option" where
  "DecrLocalDepth i d =
     (if i < DIRECTORY_ARRAY_SIZE \<and> 0 < local_depths d i
      then Some (d\<lparr>local_depths := (local_depths d)(i := local_depths d i - 1)\<rparr>)
      else None)"

definition GetLocalDepthMask :: "nat \<Rightarrow> HashTableDirectoryPage \<Rightarrow> nat option" where
  "GetLocalDepthMask i d =
     (if i < DIRECTORY_ARRAY_SIZE then Some (2 ^ local_depths d i - 1) else None)"

text \<open>
  Modelled from the spec: \<open>GetLocalHighBit(i)\<close> is the index of the split image of slot
  \<open>i\<close>, \<open>i ^ (1 << (ld - 1))\<close> for the local depth \<open>ld\<close> of the slot. At local depth
  zero the shift count of the source is out of range; \<open>Merge\<close> makes that call and drops
  its value at the depth test that follows, so the call returns here too, with
  \<open>ld - 1\<close> read as zero.
\<close>

definition GetLocalHighBit :: "nat \<Rightarrow> HashTableDirectoryPage \<Rightarrow> nat option" where
  "GetLocalHighBit i d =
     (if i < DIRECTORY_ARRAY_SIZE then Some (i XOR 2 ^ (local_depths d i - 1)) else None)"

text \<open>
  Modelled from the spec: \<open>IncrGlobalDepth\<close> doubles the directory; the new slots inherit
  the page id and the local depth of their low-order siblings. The doubled directory must
  fit the arrays.
\<close>

definition IncrGlobalDepth :: "HashTableDirectoryPage \<Rightarrow> HashTableDirectoryPage option" where
  "IncrGlobalDepth d =
     (let n = dir_Size d in
      if 2 * n \<le> DIRECTORY_ARRAY_SIZE then
        Some (d\<lparr>global_depth := global_depth d + 1,
                bucket_page_ids :=
                  (\<lambda>i. if n \<le> i \<and> i < 2 * n then bucket_page_ids d (i - n)
                       else bucket_page_ids d i),
                local_depths :=
                  (\<lambda>i. if n \<le> i \<and> i < 2 * n then local_depths d (i - n)
                       else local_depths d i)\<rparr>)
      else None)"

definition DecrGlobalDepth :: "HashTableDirectoryPage \<Rightarrow> HashTableDirectoryPage option" where
  "DecrGlobalDepth d =
     (if 0 < global_depth d then Some (d\<lparr>global_depth := global_depth d - 1\<rparr>) else None)"

text \<open>
  Modelled from the spec: \<open>CanShrink\<close> holds when every active local depth is below the
  global depth.
\<close>

definition CanShrink :: "HashTableDirectoryPage \<Rightarrow> bool" where
  "CanShrink d \<longleftrightarrow> (\<forall>i \<in> set [0..<dir_Size d]. local_depths d i < global_depth d)"

text \<open>
  \<open>Hash\<close> gives 32 bits; \<open>KeyToDirectoryIndex\<close> is \<open>Hash(key) & GetGlobalDepthMask()\<close>.
  The functions below take the hash of the key, as a natural number below \<open>2 ^ 32\<close>.
\<close>

definition KeyToDirectoryIndex :: "nat \<Rightarrow> HashTableDirectoryPage \<Rightarrow> nat" where
  "KeyToDirectoryIndex h d = h AND GetGlobalDepthMask d"

definition KeyToPageId :: "nat \<Rightarrow> HashTableDirectoryPage \<Rightarrow> page_id_t option" where
  "KeyToPageId h d = GetBucketPageId (KeyToDirectoryIndex h d) d"

subsection \<open>The directory in \<open>SplitInsert\<close>\<close>

text \<open>
  The four loops of \<open>SplitInsert\<close> (lines 199 to 222). A descending loop writes slot \<open>i\<close>
  and stops when \<open>i < diff\<close>, otherwise goes on at \<open>i - diff\<close>; an ascending loop runs
  while \<open>i < Size()\<close> in steps of \<open>diff\<close>. Every iteration reads the local depth of the
  split slot again. With \<open>diff = 0\<close> a loop would not end (\<open>None\<close>).
\<close>

function split_loop_down ::
  "nat \<Rightarrow> page_id_t \<Rightarrow> nat \<Rightarrow> nat \<Rightarrow> HashTableDirectoryPage \<Rightarrow> HashTableDirectoryPage option" where
  "split_loop_down split_bucket_index p diff i d =
     (case SetBucketPageId i p d of
        None \<Rightarrow> None
      | Some d1 \<Rightarrow>
          (case GetLocalDepth split_bucket_index d1 of
             None \<Rightarrow> None
           | Some ld \<Rightarrow>
               (case SetLocalDepth i ld d1 of
                  None \<Rightarrow> None
                | Some d2 \<Rightarrow>
                    if i < diff then Some d2
                    else if diff = 0 then None
                    else split_loop_down split_bucket_index p diff (i - diff) d2)))"
  by pat_completeness auto
termination
  by (relation "measure (\<lambda>(s, p, diff, i, d). i)") auto

declare split_loop_down.simps [simp del]

function split_loop_up ::
  "nat \<Rightarrow> page_id_t \<Rightarrow> nat \<Rightarrow> nat \<Rightarrow> HashTableDirectoryPage \<Rightarrow> HashTableDirectoryPage option" where
  "split_loop_up split_bucket_index p diff i d =
     (if i < dir_Size d then
        (case SetBucketPageId i p d of
           None \<Rightarrow> None
         | Some d1 \<Rightarrow>
             (case GetLocalDepth split_bucket_index d1 of
                None \<Rightarrow> None
              | Some ld \<Rightarrow>
                  (case SetLocalDepth i ld d1 of
                     None \<Rightarrow> None
                   | Some d2 \<Rightarrow>
                       if diff = 0 then None
                       else split_loop_up split_bucket_index p diff (i + diff) d2)))
      else Some d)"
  by pat_completeness auto
termination
  by (relation "measure (\<lambda>(s, p, diff, i, d). dir_Size d - i)")
     (auto simp: dir_Size_def SetBucketPageId_def SetLocalDepth_def split: if_splits)

declare split_loop_up.simps [simp del]

text \<open>
  The directory's part of \<open>SplitInsert\<close>, in the order of the source. Lines 160 to 176:
  the index and depth of the split slot, the depth check, the growth of the directory and
  of the local depth; the result is \<open>Some None\<close> where \<open>SplitInsert\<close> returns false, and
  the split index with the directory otherwise.
\<close>

definition SplitInsert_depths ::
  "nat \<Rightarrow> HashTableDirectoryPage \<Rightarrow> (nat \<times> HashTableDirectoryPage) option option" where
  "SplitInsert_depths h d =
     (let split_bucket_index = KeyToDirectoryIndex h d in
      case GetLocalDepth split_bucket_index d of
        None \<Rightarrow> None
      | Some split_bucket_depth \<Rightarrow>
          if split_bucket_depth \<ge> MAX_BUCKET_DEPTH then Some None
          else
            (case (if split_bucket_depth = GetGlobalDepth d then IncrGlobalDepth d else Some d) of
               None \<Rightarrow> None
             | Some d1 \<Rightarrow>
                 (case IncrLocalDepth split_bucket_index d1 of
                    None \<Rightarrow> None
                  | Some d2 \<Rightarrow> Some (Some (split_bucket_index, d2)))))"

text \<open>
  Lines 193 to 222: the image slot receives the new local depth and the image page, then
  the four loops rewrite the slots of the original and of the image.
\<close>

definition SplitInsert_redirect ::
  "nat \<Rightarrow> page_id_t \<Rightarrow> page_id_t \<Rightarrow> HashTableDirectoryPage \<Rightarrow> HashTableDirectoryPage option" where
  "SplitInsert_redirect split_bucket_index split_bucket_page_id image_bucket_page_id d =
     do {
       split_image_bucket_index \<leftarrow> GetLocalHighBit split_bucket_index d;
       ld \<leftarrow> GetLocalDepth split_bucket_index d;
       d1 \<leftarrow> SetLocalDepth split_image_bucket_index ld d;
       d2 \<leftarrow> SetBucketPageId split_image_bucket_index image_bucket_page_id d1;
       ld2 \<leftarrow> GetLocalDepth split_bucket_index d2;
       let diff = 2 ^ ld2;
       d3 \<leftarrow> split_loop_down split_bucket_index split_bucket_page_id diff split_bucket_index d2;
       d4 \<leftarrow> split_loop_up split_bucket_index split_bucket_page_id diff split_bucket_index d3;
       d5 \<leftarrow> split_loop_down split_bucket_index image_bucket_page_id diff
               split_image_bucket_index d4;
       split_loop_up split_bucket_index image_bucket_page_id diff split_image_bucket_index d5
     }"






definition class_write ::
  "nat \<Rightarrow> nat \<Rightarrow> nat \<Rightarrow> page_id_t \<Rightarrow> nat \<Rightarrow> HashTableDirectoryPage \<Rightarrow> HashTableDirectoryPage" where
  "class_write n diff start p ld d =
     d\<lparr>bucket_page_ids :=
         (\<lambda>j. if j < n \<and> j mod diff = start mod diff then p else bucket_page_ids d j),
       local_depths :=
         (\<lambda>j. if j < n \<and> j mod diff = start mod diff then ld else local_depths d j)\<rparr>"



section \<open>Extendible hash table: the operations (src/container/hash/extendible_hash_table.cpp)\<close>

text \<open>
  The pages of the index live in the buffer pool. The bytes of a page are read through a
  typed view (\<open>reinterpret_cast\<close>); here they are a zeroed block, a directory or a bucket,
  and a zeroed block reads as the directory or the bucket whose fields are all zero.
  Reading a directory as a bucket, or a bucket as a directory, has no meaning (\<open>None\<close>).
\<close>

datatype ('k, 'v) page_bytes =
    Zeroed
  | DirectoryBytes HashTableDirectoryPage
  | BucketBytes "('k \<times> 'v) list"

instantiation page_bytes :: (type, type) zero
begin

definition zero_page_bytes :: "('k, 'v) page_bytes" where
  "zero_page_bytes = Zeroed"

instance ..

end

definition zero_directory :: HashTableDirectoryPage where
  "zero_directory =
     \<lparr>dir_page_id = 0, global_depth = 0, bucket_page_ids = (\<lambda>_. 0), local_depths = (\<lambda>_. 0)\<rparr>"

fun as_directory :: "('k, 'v) page_bytes \<Rightarrow> HashTableDirectoryPage option" where
  "as_directory Zeroed = Some zero_directory"
| "as_directory (DirectoryBytes d) = Some d"
| "as_directory (BucketBytes b) = None"

fun as_bucket :: "('k, 'v) page_bytes \<Rightarrow> ('k \<times> 'v) list option" where
  "as_bucket Zeroed = Some []"
| "as_bucket (BucketBytes b) = Some b"
| "as_bucket (DirectoryBytes d) = None"

text \<open>
  Modelled from the spec: a bucket page (\<open>hash_table_bucket_page.cpp\<close> is not among the
  sources) holds up to \<open>BUCKET_ARRAY_SIZE\<close> live entries, rejects a duplicate
  \<open>(key, value)\<close> pair and allows duplicate keys; it is the list of its live entries.
\<close>

definition bucket_IsFull :: "nat \<Rightarrow> ('k \<times> 'v) list \<Rightarrow> bool" where
  "bucket_IsFull bucket_array_size b \<longleftrightarrow> length b \<ge> bucket_array_size"

definition bucket_IsEmpty :: "('k \<times> 'v) list \<Rightarrow> bool" where
  "bucket_IsEmpty b \<longleftrightarrow> b = []"

definition bucket_Insert ::
  "nat \<Rightarrow> 'k \<Rightarrow> 'v \<Rightarrow> ('k \<times> 'v) list \<Rightarrow> bool \<times> ('k \<times> 'v) list" where
  "bucket_Insert bucket_array_size k v b =
     (if (k, v) \<in> set b then (False, b)
      else if bucket_IsFull bucket_array_size b then (False, b)
      else (True, b @ [(k, v)]))"

definition bucket_Remove :: "'k \<Rightarrow> 'v \<Rightarrow> ('k \<times> 'v) list \<Rightarrow> bool \<times> ('k \<times> 'v) list" where
  "bucket_Remove k v b = (if (k, v) \<in> set b then (True, remove1 (k, v) b) else (False, b))"

definition bucket_GetValue :: "'k \<Rightarrow> ('k \<times> 'v) list \<Rightarrow> 'v list" where
  "bucket_GetValue k b = map snd (filter (\<lambda>e. fst e = k) b)"

text \<open>
  Modelled from the spec: a reader/writer latch (\<open>common/rwlatch.h\<close> is not among the
  sources). An acquisition that has to wait never returns in a run of one thread, and a
  release of a latch that is not held has no meaning; both are \<open>None\<close>.
\<close>

record ReaderWriterLatch =
  readers :: nat
  writer :: bool

definition new_ReaderWriterLatch :: ReaderWriterLatch where
  "new_ReaderWriterLatch = \<lparr>readers = 0, writer = False\<rparr>"

definition RLock :: "ReaderWriterLatch \<Rightarrow> ReaderWriterLatch option" where
  "RLock l = (if writer l then None else Some (l\<lparr>readers := readers l + 1\<rparr>))"

definition RUnlock :: "ReaderWriterLatch \<Rightarrow> ReaderWriterLatch option" where
  "RUnlock l = (if readers l = 0 then None else Some (l\<lparr>readers := readers l - 1\<rparr>))"

definition WLock :: "ReaderWriterLatch \<Rightarrow> ReaderWriterLatch option" where
  "WLock l = (if writer l \<or> readers l > 0 then None else Some (l\<lparr>writer := True\<rparr>))"

definition WUnlock :: "ReaderWriterLatch \<Rightarrow> ReaderWriterLatch option" where
  "WUnlock l = (if writer l then Some (l\<lparr>writer := False\<rparr>) else None)"

text \<open>
  The table: the buffer pool it points to, the directory page id, the table latch, the
  latch of each page object (a \<open>Page\<close> is a frame of the pool), the hash function with
  its 32-bit digest as a natural number, and the capacity of a bucket. The comparator is
  equality of keys. \<open>init_lock_\<close>, a mutex taken and released inside
  \<open>FetchDirectoryPage\<close>, is left out.
\<close>

record ('k, 'v) ExtendibleHashTable =
  buffer_pool_manager :: "('k, 'v) page_bytes BufferPoolManagerInstance"
  directory_page_id :: page_id_t
  table_latch :: ReaderWriterLatch
  page_latch :: "frame_id_t \<Rightarrow> ReaderWriterLatch"
  hash_fn :: "'k \<Rightarrow> nat"
  BUCKET_ARRAY_SIZE :: nat

definition new_ExtendibleHashTable ::
  "('k, 'v) page_bytes BufferPoolManagerInstance \<Rightarrow> ('k \<Rightarrow> nat) \<Rightarrow> nat
     \<Rightarrow> ('k, 'v) ExtendibleHashTable" where
  "new_ExtendibleHashTable bpm h n =
     \<lparr>buffer_pool_manager = bpm, directory_page_id = INVALID_PAGE_ID,
      table_latch = new_ReaderWriterLatch, page_latch = (\<lambda>_. new_ReaderWriterLatch),
      hash_fn = h, BUCKET_ARRAY_SIZE = n\<rparr>"

definition Hash :: "('k, 'v) ExtendibleHashTable \<Rightarrow> 'k \<Rightarrow> nat" where
  "Hash t key = hash_fn t key mod 2 ^ 32"

text \<open>The calls into the buffer pool, the assertions and the latches, on the table state.\<close>

definition assert :: "bool \<Rightarrow> unit option" where
  "assert b = (if b then Some () else None)"

definition NewPage ::
  "('k, 'v) ExtendibleHashTable
     \<Rightarrow> ((page_id_t \<times> frame_id_t) option \<times> ('k, 'v) ExtendibleHashTable) option" where
  "NewPage t =
     map_option (\<lambda>(r, b). (r, t\<lparr>buffer_pool_manager := b\<rparr>)) (NewPgImp (buffer_pool_manager t))"

definition FetchPage ::
  "page_id_t \<Rightarrow> ('k, 'v) ExtendibleHashTable
     \<Rightarrow> (frame_id_t option \<times> ('k, 'v) ExtendibleHashTable) option" where
  "FetchPage p t =
     map_option (\<lambda>(r, b). (r, t\<lparr>buffer_pool_manager := b\<rparr>)) (FetchPgImp (buffer_pool_manager t) p)"

definition UnpinPage ::
  "page_id_t \<Rightarrow> bool \<Rightarrow> ('k, 'v) ExtendibleHashTable
     \<Rightarrow> (bool \<times> ('k, 'v) ExtendibleHashTable) option" where
  "UnpinPage p dirty t =
     map_option (\<lambda>(r, b). (r, t\<lparr>buffer_pool_manager := b\<rparr>))
       (UnpinPgImp (buffer_pool_manager t) p dirty)"

definition DeletePage ::
  "page_id_t \<Rightarrow> ('k, 'v) ExtendibleHashTable \<Rightarrow> (bool \<times> ('k, 'v) ExtendibleHashTable) option" where
  "DeletePage p t =
     map_option (\<lambda>(r, b). (r, t\<lparr>buffer_pool_manager := b\<rparr>))
       (DeletePgImp (buffer_pool_manager t) p)"

text \<open>\<open>assert(buffer_pool_manager_->UnpinPage(id, dirty))\<close>.\<close>

definition assert_UnpinPage ::
  "page_id_t \<Rightarrow> bool \<Rightarrow> ('k, 'v) ExtendibleHashTable \<Rightarrow> ('k, 'v) ExtendibleHashTable option" where
  "assert_UnpinPage p dirty t =
     do { (ok, t') \<leftarrow> UnpinPage p dirty t; assert ok; Some t' }"

definition on_table_latch ::
  "(ReaderWriterLatch \<Rightarrow> ReaderWriterLatch option) \<Rightarrow> ('k, 'v) ExtendibleHashTable
     \<Rightarrow> ('k, 'v) ExtendibleHashTable option" where
  "on_table_latch f t = map_option (\<lambda>l. t\<lparr>table_latch := l\<rparr>) (f (table_latch t))"

definition on_page_latch ::
  "(ReaderWriterLatch \<Rightarrow> ReaderWriterLatch option) \<Rightarrow> frame_id_t
     \<Rightarrow> ('k, 'v) ExtendibleHashTable \<Rightarrow> ('k, 'v) ExtendibleHashTable option" where
  "on_page_latch f page t =
     map_option (\<lambda>l. t\<lparr>page_latch := (page_latch t)(page := l)\<rparr>) (f (page_latch t page))"

text \<open>Reading and writing the bytes of the page in a frame through a view.\<close>

definition page_data :: "('k, 'v) ExtendibleHashTable \<Rightarrow> frame_id_t \<Rightarrow> ('k, 'v) page_bytes option" where
  "page_data t page = map_option data (frame_at (buffer_pool_manager t) page)"

definition set_page_data ::
  "frame_id_t \<Rightarrow> ('k, 'v) page_bytes \<Rightarrow> ('k, 'v) ExtendibleHashTable
     \<Rightarrow> ('k, 'v) ExtendibleHashTable option" where
  "set_page_data page bytes t =
     (case frame_at (buffer_pool_manager t) page of
        None \<Rightarrow> None
      | Some pg \<Rightarrow>
          Some (t\<lparr>buffer_pool_manager :=
                   set_frame page (pg\<lparr>data := bytes\<rparr>) (buffer_pool_manager t)\<rparr>))"

definition get_directory ::
  "('k, 'v) ExtendibleHashTable \<Rightarrow> frame_id_t \<Rightarrow> HashTableDirectoryPage option" where
  "get_directory t dir_page = do { bytes \<leftarrow> page_data t dir_page; as_directory bytes }"

definition set_directory ::
  "frame_id_t \<Rightarrow> HashTableDirectoryPage \<Rightarrow> ('k, 'v) ExtendibleHashTable
     \<Rightarrow> ('k, 'v) ExtendibleHashTable option" where
  "set_directory dir_page d t = set_page_data dir_page (DirectoryBytes d) t"

definition RetrieveBucket ::
  "('k, 'v) ExtendibleHashTable \<Rightarrow> frame_id_t \<Rightarrow> ('k \<times> 'v) list option" where
  "RetrieveBucket t page = do { bytes \<leftarrow> page_data t page; as_bucket bytes }"

definition set_bucket ::
  "frame_id_t \<Rightarrow> ('k \<times> 'v) list \<Rightarrow> ('k, 'v) ExtendibleHashTable
     \<Rightarrow> ('k, 'v) ExtendibleHashTable option" where
  "set_bucket page b t = set_page_data page (BucketBytes b) t"

text \<open>
  \<open>FetchDirectoryPage\<close> returns the frame of the directory page, pinned. On the first
  call it creates the directory page and the first bucket page.
\<close>

definition FetchDirectoryPage ::
  "('k, 'v) ExtendibleHashTable \<Rightarrow> (frame_id_t \<times> ('k, 'v) ExtendibleHashTable) option" where
  "FetchDirectoryPage t =
     do {
       t1 \<leftarrow>
         (if directory_page_id t = INVALID_PAGE_ID then
            do {
              (r, ta) \<leftarrow> NewPage t;
              (new_page_id_dir, ret) \<leftarrow> r;
              let tb = ta\<lparr>directory_page_id := new_page_id_dir\<rparr>;
              d \<leftarrow> get_directory tb ret;
              tc \<leftarrow> set_directory ret (d\<lparr>dir_page_id := directory_page_id tb\<rparr>) tb;
              (r2, td) \<leftarrow> NewPage tc;
              (new_page_id_buc, page) \<leftarrow> r2;
              d1 \<leftarrow> get_directory td ret;
              d2 \<leftarrow> SetBucketPageId 0 new_page_id_buc d1;
              te \<leftarrow> set_directory ret d2 td;
              tf \<leftarrow> assert_UnpinPage new_page_id_dir True te;
              assert_UnpinPage new_page_id_buc True tf
            }
          else Some t);
       assert (directory_page_id t1 \<noteq> INVALID_PAGE_ID);
       (r, t2) \<leftarrow> FetchPage (directory_page_id t1) t1;
       page \<leftarrow> r;
       Some (page, t2)
     }"

text \<open>\<open>FetchBucketPage\<close> asserts that the page was fetched.\<close>

definition FetchBucketPage ::
  "page_id_t \<Rightarrow> ('k, 'v) ExtendibleHashTable
     \<Rightarrow> (frame_id_t \<times> ('k, 'v) ExtendibleHashTable) option" where
  "FetchBucketPage bucket_page_id t =
     do { (r, t') \<leftarrow> FetchPage bucket_page_id t; page \<leftarrow> r; Some (page, t') }"

definition GetValue ::
  "'k \<Rightarrow> ('k, 'v) ExtendibleHashTable \<Rightarrow> ((bool \<times> 'v list) \<times> ('k, 'v) ExtendibleHashTable) option" where
  "GetValue key t =
     do {
       t1 \<leftarrow> on_table_latch RLock t;
       (dir_page, t2) \<leftarrow> FetchDirectoryPage t1;
       d \<leftarrow> get_directory t2 dir_page;
       bucket_page_id \<leftarrow> KeyToPageId (Hash t2 key) d;
       (bucket_page, t3) \<leftarrow> FetchBucketPage bucket_page_id t2;
       t4 \<leftarrow> on_page_latch RLock bucket_page t3;
       bucket \<leftarrow> RetrieveBucket t4 bucket_page;
       let result = bucket_GetValue key bucket;
       t5 \<leftarrow> on_page_latch RUnlock bucket_page t4;
       t6 \<leftarrow> assert_UnpinPage bucket_page_id False t5;
       d' \<leftarrow> get_directory t6 dir_page;
       t7 \<leftarrow> assert_UnpinPage (dir_page_id d') False t6;
       t8 \<leftarrow> on_table_latch RUnlock t7;
       Some ((result \<noteq> [], result), t8)
     }"

text \<open>
  The rehash loop of \<open>SplitInsert\<close> (lines 226 to 237) over the copied entries: each entry
  goes to the bucket its hash selects under the new local depth mask, and both the page
  lookup and the insertion are asserted.
\<close>

fun SplitInsert_rehash ::
  "('k \<times> 'v) list \<Rightarrow> nat \<Rightarrow> frame_id_t \<Rightarrow> page_id_t \<Rightarrow> frame_id_t \<Rightarrow> page_id_t \<Rightarrow> frame_id_t
     \<Rightarrow> ('k, 'v) ExtendibleHashTable \<Rightarrow> ('k, 'v) ExtendibleHashTable option" where
  "SplitInsert_rehash [] local_mask dir_page split_bucket_page_id split_page
       image_bucket_page_id image_bucket_page t = Some t"
| "SplitInsert_rehash (tmp # rest) local_mask dir_page split_bucket_page_id split_page
       image_bucket_page_id image_bucket_page t =
     do {
       let target_bucket_index = Hash t (fst tmp) AND local_mask;
       d \<leftarrow> get_directory t dir_page;
       target_bucket_index_page \<leftarrow> GetBucketPageId target_bucket_index d;
       assert (target_bucket_index_page = split_bucket_page_id
               \<or> target_bucket_index_page = image_bucket_page_id);
       t1 \<leftarrow>
         (if target_bucket_index_page = split_bucket_page_id then
            do {
              split_bucket \<leftarrow> RetrieveBucket t split_page;
              let (ok, b) = bucket_Insert (BUCKET_ARRAY_SIZE t) (fst tmp) (snd tmp) split_bucket;
              assert ok;
              set_bucket split_page b t
            }
          else
            do {
              image_bucket \<leftarrow> RetrieveBucket t image_bucket_page;
              let (ok, b) = bucket_Insert (BUCKET_ARRAY_SIZE t) (fst tmp) (snd tmp) image_bucket;
              assert ok;
              set_bucket image_bucket_page b t
            });
       SplitInsert_rehash rest local_mask dir_page split_bucket_page_id split_page
         image_bucket_page_id image_bucket_page t1
     }"

text \<open>
  \<open>Insert\<close> and \<open>SplitInsert\<close> call each other. Each call takes one unit of fuel, and a
  call without fuel does not return; a split raises a local depth, so a chain of calls
  ends after at most \<open>MAX_BUCKET_DEPTH\<close> splits and enough fuel always exists.
\<close>

fun Insert ::
  "nat \<Rightarrow> 'k \<Rightarrow> 'v \<Rightarrow> ('k, 'v) ExtendibleHashTable \<Rightarrow> (bool \<times> ('k, 'v) ExtendibleHashTable) option"
and SplitInsert ::
  "nat \<Rightarrow> 'k \<Rightarrow> 'v \<Rightarrow> ('k, 'v) ExtendibleHashTable \<Rightarrow> (bool \<times> ('k, 'v) ExtendibleHashTable) option"
where
  "Insert 0 key val t = None"
| "Insert (Suc fuel) key val t =
     do {
       t1 \<leftarrow> on_table_latch RLock t;
       (dir_page, t2) \<leftarrow> FetchDirectoryPage t1;
       d \<leftarrow> get_directory t2 dir_page;
       bucket_page_id \<leftarrow> KeyToPageId (Hash t2 key) d;
       (page, t3) \<leftarrow> FetchBucketPage bucket_page_id t2;
       t4 \<leftarrow> on_page_latch WLock page t3;
       bucket \<leftarrow> RetrieveBucket t4 page;
       if \<not> bucket_IsFull (BUCKET_ARRAY_SIZE t4) bucket then
         do {
           let (ret, b) = bucket_Insert (BUCKET_ARRAY_SIZE t4) key val bucket;
           t5 \<leftarrow> set_bucket page b t4;
           t6 \<leftarrow> on_page_latch WUnlock page t5;
           t7 \<leftarrow> assert_UnpinPage bucket_page_id True t6;
           d' \<leftarrow> get_directory t7 dir_page;
           t8 \<leftarrow> assert_UnpinPage (dir_page_id d') False t7;
           Some (ret, t8)
         }
       else
         do {
           t5 \<leftarrow> on_page_latch WUnlock page t4;
           t6 \<leftarrow> assert_UnpinPage bucket_page_id False t5;
           d' \<leftarrow> get_directory t6 dir_page;
           t7 \<leftarrow> assert_UnpinPage (dir_page_id d') False t6;
           t8 \<leftarrow> on_table_latch RUnlock t7;
           SplitInsert fuel key val t8
         }
     }"
| "SplitInsert 0 key val t = None"
| "SplitInsert (Suc fuel) key val t =
     do {
       t1 \<leftarrow> on_table_latch WLock t;
       (dir_page, t2) \<leftarrow> FetchDirectoryPage t1;
       d \<leftarrow> get_directory t2 dir_page;
       depths \<leftarrow> SplitInsert_depths (Hash t2 key) d;
       case depths of
         None \<Rightarrow>
           do {
             t3 \<leftarrow> assert_UnpinPage (dir_page_id d) False t2;
             t4 \<leftarrow> on_table_latch WUnlock t3;
             Some (False, t4)
           }
       | Some (split_bucket_index, d2) \<Rightarrow>
           do {
             t3 \<leftarrow> set_directory dir_page d2 t2;
             split_bucket_page_id \<leftarrow> KeyToPageId (Hash t3 key) d2;
             (split_page, t4) \<leftarrow> FetchBucketPage split_bucket_page_id t3;
             t5 \<leftarrow> on_page_latch WLock split_page t4;
             split_bucket \<leftarrow> RetrieveBucket t5 split_page;
             let origin_array_size = length split_bucket;
             let origin_array = split_bucket;
             t6 \<leftarrow> set_bucket split_page [] t5;
             (r, t7) \<leftarrow> NewPage t6;
             (image_bucket_page_id, image_bucket_page) \<leftarrow> r;
             d3 \<leftarrow> get_directory t7 dir_page;
             d4 \<leftarrow> SplitInsert_redirect split_bucket_index split_bucket_page_id
                     image_bucket_page_id d3;
             t8 \<leftarrow> set_directory dir_page d4 t7;
             local_mask \<leftarrow> GetLocalDepthMask split_bucket_index d4;
             t9 \<leftarrow> SplitInsert_rehash (take origin_array_size origin_array) local_mask dir_page
                     split_bucket_page_id split_page image_bucket_page_id image_bucket_page t8;
             t10 \<leftarrow> on_page_latch WUnlock split_page t9;
             t11 \<leftarrow> assert_UnpinPage split_bucket_page_id True t10;
             t12 \<leftarrow> assert_UnpinPage image_bucket_page_id True t11;
             d5 \<leftarrow> get_directory t12 dir_page;
             t13 \<leftarrow> assert_UnpinPage (dir_page_id d5) True t12;
             t14 \<leftarrow> on_table_latch WUnlock t13;
             Insert fuel key val t14
           }
     }"

text \<open>The two loops of \<open>Merge\<close> on the directory (lines 342 to 347 and 351 to 353).\<close>

function Merge_redirect ::
  "nat \<Rightarrow> page_id_t \<Rightarrow> page_id_t \<Rightarrow> nat \<Rightarrow> HashTableDirectoryPage \<Rightarrow> HashTableDirectoryPage option" where
  "Merge_redirect target_bucket_index target_bucket_page_id image_bucket_page_id i d =
     (if i < dir_Size d then
        (case GetBucketPageId i d of
           None \<Rightarrow> None
         | Some p \<Rightarrow>
             if p = target_bucket_page_id \<or> p = image_bucket_page_id then
               (case SetBucketPageId i image_bucket_page_id d of
                  None \<Rightarrow> None
                | Some d1 \<Rightarrow>
                    (case GetLocalDepth target_bucket_index d1 of
                       None \<Rightarrow> None
                     | Some ld \<Rightarrow>
                         (case SetLocalDepth i ld d1 of
                            None \<Rightarrow> None
                          | Some d2 \<Rightarrow>
                              Merge_redirect target_bucket_index target_bucket_page_id
                                image_bucket_page_id (i + 1) d2)))
             else
               Merge_redirect target_bucket_index target_bucket_page_id
                 image_bucket_page_id (i + 1) d)
      else Some d)"
  by pat_completeness auto
termination
  by (relation "measure (\<lambda>(s, p, q, i, d). dir_Size d - i)")
     (auto simp: dir_Size_def SetBucketPageId_def SetLocalDepth_def split: if_splits)

declare Merge_redirect.simps [simp del]

function Merge_shrink :: "HashTableDirectoryPage \<Rightarrow> HashTableDirectoryPage option" where
  "Merge_shrink d =
     (if CanShrink d then
        (case DecrGlobalDepth d of None \<Rightarrow> None | Some d1 \<Rightarrow> Merge_shrink d1)
      else Some d)"
  by pat_completeness auto
termination
  by (relation "measure global_depth") (auto simp: DecrGlobalDepth_def split: if_splits)

declare Merge_shrink.simps [simp del]

definition Merge ::
  "nat \<Rightarrow> ('k, 'v) ExtendibleHashTable \<Rightarrow> ('k, 'v) ExtendibleHashTable option" where
  "Merge target_bucket_index t =
     do {
       t1 \<leftarrow> on_table_latch WLock t;
       (dir_page, t2) \<leftarrow> FetchDirectoryPage t1;
       d \<leftarrow> get_directory t2 dir_page;
       if target_bucket_index \<ge> dir_Size d then on_table_latch WUnlock t2
       else
         do {
           target_bucket_page_id \<leftarrow> GetBucketPageId target_bucket_index d;
           image_bucket_index \<leftarrow> GetLocalHighBit target_bucket_index d;
           local_depth \<leftarrow> GetLocalDepth target_bucket_index d;
           if local_depth = 0 then
             do {
               t3 \<leftarrow> assert_UnpinPage (dir_page_id d) False t2;
               on_table_latch WUnlock t3
             }
           else
             do {
               image_depth \<leftarrow> GetLocalDepth image_bucket_index d;
               if local_depth \<noteq> image_depth then
                 do {
                   t3 \<leftarrow> assert_UnpinPage (dir_page_id d) False t2;
                   on_table_latch WUnlock t3
                 }
               else
                 do {
                   (target_page, t3) \<leftarrow> FetchBucketPage target_bucket_page_id t2;
                   t4 \<leftarrow> on_page_latch RLock target_page t3;
                   target_bucket \<leftarrow> RetrieveBucket t4 target_page;
                   if \<not> bucket_IsEmpty target_bucket then
                     do {
                       t5 \<leftarrow> on_page_latch RUnlock target_page t4;
                       t6 \<leftarrow> assert_UnpinPage target_bucket_page_id False t5;
                       d' \<leftarrow> get_directory t6 dir_page;
                       t7 \<leftarrow> assert_UnpinPage (dir_page_id d') False t6;
                       on_table_latch WUnlock t7
                     }
                   else
                     do {
                       t5 \<leftarrow> on_page_latch RUnlock target_page t4;
                       t6 \<leftarrow> assert_UnpinPage target_bucket_page_id False t5;
                       (deleted, t7) \<leftarrow> DeletePage target_bucket_page_id t6;
                       assert deleted;
                       d0 \<leftarrow> get_directory t7 dir_page;
                       image_bucket_page_id \<leftarrow> GetBucketPageId image_bucket_index d0;
                       d1 \<leftarrow> SetBucketPageId target_bucket_index image_bucket_page_id d0;
                       d2 \<leftarrow> DecrLocalDepth target_bucket_index d1;
                       d3 \<leftarrow> DecrLocalDepth image_bucket_index d2;
                       ld_target \<leftarrow> GetLocalDepth target_bucket_index d3;
                       ld_image \<leftarrow> GetLocalDepth image_bucket_index d3;
                       assert (ld_target = ld_image);
                       d4 \<leftarrow> Merge_redirect target_bucket_index target_bucket_page_id
                               image_bucket_page_id 0 d3;
                       d5 \<leftarrow> Merge_shrink d4;
                       t8 \<leftarrow> set_directory dir_page d5 t7;
                       t9 \<leftarrow> assert_UnpinPage (dir_page_id d5) True t8;
                       on_table_latch WUnlock t9
                     }
                 }
             }
         }
     }"

definition Remove ::
  "'k \<Rightarrow> 'v \<Rightarrow> ('k, 'v) ExtendibleHashTable \<Rightarrow> (bool \<times> ('k, 'v) ExtendibleHashTable) option" where
  "Remove key val t =
     do {
       t1 \<leftarrow> on_table_latch RLock t;
       (dir_page, t2) \<leftarrow> FetchDirectoryPage t1;
       d \<leftarrow> get_directory t2 dir_page;
       bucket_page_id \<leftarrow> KeyToPageId (Hash t2 key) d;
       let bucket_index = KeyToDirectoryIndex (Hash t2 key) d;
       (page, t3) \<leftarrow> FetchBucketPage bucket_page_id t2;
       t4 \<leftarrow> on_page_latch WLock page t3;
       bucket \<leftarrow> RetrieveBucket t4 page;
       let (ret, b) = bucket_Remove key val bucket;
       t5 \<leftarrow> set_bucket page b t4;
       t6 \<leftarrow> on_page_latch WUnlock page t5;
       t7 \<leftarrow> assert_UnpinPage bucket_page_id True t6;
       d' \<leftarrow> get_directory t7 dir_page;
       t8 \<leftarrow> assert_UnpinPage (dir_page_id d') False t7;
       t9 \<leftarrow> on_table_latch RUnlock t8;
       if bucket_IsEmpty b then
         do { t10 \<leftarrow> Merge bucket_index t9; Some (ret, t10) }
       else Some (ret, t9)
     }"

text \<open>
  A new table over a new pool of four frames, with natural numbers as keys and values, the
  identity as hash function and buckets of two entries.
\<close>

definition example_table :: "(nat, nat) ExtendibleHashTable" where
  "example_table =
     new_ExtendibleHashTable
       (new_BufferPoolManagerInstance 4 1 0 \<lparr>disk_pages = (\<lambda>_. 0), disk_log = []\<rparr>)
       (\<lambda>k. k) 2"

text \<open>What the properties below observe of a table: the pin counts of the frames and the table latch.\<close>

definition pin_counts :: "('k, 'v) ExtendibleHashTable \<Rightarrow> (page_id_t \<times> int) list" where
  "pin_counts t = map (\<lambda>pg. (page_id pg, pin_count pg)) (pages (buffer_pool_manager t))"

section \<open>Runs of the hash table\<close>

text \<open>
  A new table over a new pool of \<open>psz\<close> frames that serves this table alone. The pool is
  a single instance (one instance, index 0), as the three-argument constructor of the pool
  builds it.
\<close>

definition fresh_table ::
  "nat \<Rightarrow> ('k, 'v) page_bytes DiskManager \<Rightarrow> ('k \<Rightarrow> nat) \<Rightarrow> nat \<Rightarrow> ('k, 'v) ExtendibleHashTable" where
  "fresh_table psz dm h B = new_ExtendibleHashTable (new_BufferPoolManagerInstance psz 1 0 dm) h B"

text \<open>The frames \<open>a\<close>, \<open>a + 1\<close>, ... of a free list of \<open>k\<close> frames.\<close>

definition free_frames :: "nat \<Rightarrow> nat \<Rightarrow> frame_id_t list" where
  "free_frames a k = map int [a..<a + k]"

text \<open>
  The directory \<open>FetchDirectoryPage\<close> creates on the first call: global depth 0, its own
  page id 0 and the first bucket page, page 1, in slot 0.
\<close>

definition boot_directory :: HashTableDirectoryPage where
  "boot_directory =
     \<lparr>dir_page_id = 0, global_depth = 0, bucket_page_ids = (\<lambda>_. 0)(0 := 1), local_depths = (\<lambda>_. 0)\<rparr>"

text \<open>
  The table between two calls once the directory exists: the directory page in frame 0 and
  the bucket page in frame 1, both unpinned and evictable, \<open>k\<close> further frames free,
  \<open>r\<close> readers on the table latch, and the dirty flags, the bytes of the bucket page and
  the disk as the calls so far have left them.
\<close>

definition booted_table ::
  "nat \<Rightarrow> ('k, 'v) page_bytes DiskManager \<Rightarrow> ('k \<Rightarrow> nat) \<Rightarrow> nat \<Rightarrow> nat \<Rightarrow> bool \<Rightarrow> bool
     \<Rightarrow> ('k, 'v) page_bytes \<Rightarrow> ('k, 'v) ExtendibleHashTable" where
  "booted_table k dm h B r dd db bd =
     \<lparr>buffer_pool_manager =
        \<lparr>pool_size = Suc (Suc k), num_instances = 1, instance_index = 0, next_page_id = 2,
         pages = \<lparr>page_id = 0, pin_count = 0, is_dirty = dd, data = DirectoryBytes boot_directory\<rparr>
               # \<lparr>page_id = 1, pin_count = 0, is_dirty = db, data = bd\<rparr>
               # replicate k new_Page,
         page_table = [(0, 0), (1, 1)], free_list = free_frames 2 k,
         replacer = \<lparr>max_size = Suc (Suc k), lru_list = [0, 1], lru_hash = {0, 1}\<rparr>,
         disk_manager = dm\<rparr>,
      directory_page_id = 0,
      table_latch = \<lparr>readers = r, writer = False\<rparr>,
      page_latch = (\<lambda>_. \<lparr>readers = 0, writer = False\<rparr>),
      hash_fn = h, BUCKET_ARRAY_SIZE = B\<rparr>"

text \<open>
  The directory after the first split: after lines 171 to 176 (global depth 1, slot 1 a copy
  of slot 0, local depth of slot 0 raised), and after lines 193 to 222 with page 2 as the
  image.
\<close>

definition grown_directory :: HashTableDirectoryPage where
  "grown_directory =
     \<lparr>dir_page_id = 0, global_depth = 1, bucket_page_ids = (\<lambda>_. 0)(0 := 1, 1 := 1),
      local_depths = (\<lambda>_. 0)(0 := 1)\<rparr>"

definition split_directory :: HashTableDirectoryPage where
  "split_directory =
     \<lparr>dir_page_id = 0, global_depth = 1, bucket_page_ids = (\<lambda>_. 0)(0 := 1, 1 := 2),
      local_depths = (\<lambda>_. 0)(0 := 1, 1 := 1)\<rparr>"

text \<open>
  The table when \<open>SplitInsert\<close> has split the first bucket and released the table latch,
  before it calls \<open>Insert\<close> again: the image page 2 is in frame 2, both buckets are empty.
\<close>

definition split_table ::
  "nat \<Rightarrow> ('k, 'v) page_bytes DiskManager \<Rightarrow> ('k \<Rightarrow> nat) \<Rightarrow> nat \<Rightarrow> nat
     \<Rightarrow> ('k, 'v) page_bytes \<Rightarrow> ('k, 'v) page_bytes \<Rightarrow> ('k, 'v) ExtendibleHashTable" where
  "split_table k dm h B r b1 b2 =
     \<lparr>buffer_pool_manager =
        \<lparr>pool_size = Suc (Suc (Suc k)), num_instances = 1, instance_index = 0, next_page_id = 3,
         pages = \<lparr>page_id = 0, pin_count = 0, is_dirty = True, data = DirectoryBytes split_directory\<rparr>
               # \<lparr>page_id = 1, pin_count = 0, is_dirty = True, data = b1\<rparr>
               # \<lparr>page_id = 2, pin_count = 0, is_dirty = True, data = b2\<rparr>
               # replicate k new_Page,
         page_table = [(0, 0), (1, 1), (2, 2)], free_list = free_frames 3 k,
         replacer = \<lparr>max_size = Suc (Suc (Suc k)), lru_list = [0, 2, 1], lru_hash = {0, 1, 2}\<rparr>,
         disk_manager = dm\<rparr>,
      directory_page_id = 0,
      table_latch = \<lparr>readers = r, writer = False\<rparr>,
      page_latch = (\<lambda>_. \<lparr>readers = 0, writer = False\<rparr>),
      hash_fn = h, BUCKET_ARRAY_SIZE = B\<rparr>"

text \<open>
  The calls the table can receive: its three operations, and a flush of a page of its pool
  by another user of the pool. \<open>Insert\<close> gets fuel for the longest chain of splits.
\<close>

datatype ('k, 'v) ht_call =
    CallGetValue 'k
  | CallInsert 'k 'v
  | CallRemove 'k 'v
  | CallFlush page_id_t

definition call_fuel :: nat where
  "call_fuel = 2 * MAX_BUCKET_DEPTH + 2"

fun ht_step ::
  "('k, 'v) ht_call \<Rightarrow> ('k, 'v) ExtendibleHashTable \<Rightarrow> ('k, 'v) ExtendibleHashTable option" where
  "ht_step (CallGetValue key) t = map_option snd (GetValue key t)"
| "ht_step (CallInsert key val) t = map_option snd (Insert call_fuel key val t)"
| "ht_step (CallRemove key val) t = map_option snd (Remove key val t)"
| "ht_step (CallFlush p) t =
     map_option (\<lambda>(r, b). t\<lparr>buffer_pool_manager := b\<rparr>) (FlushPgImp (buffer_pool_manager t) p)"

fun ht_run ::
  "('k, 'v) ht_call list \<Rightarrow> ('k, 'v) ExtendibleHashTable \<Rightarrow> ('k, 'v) ExtendibleHashTable option" where
  "ht_run [] t = Some t"
| "ht_run (c # cs) t = (case ht_step c t of None \<Rightarrow> None | Some t' \<Rightarrow> ht_run cs t')"

text \<open>
  What a table is between two calls of a run: new, or with its directory and first bucket
  in the pool, the bucket holding entries only if an \<open>Insert\<close> has returned, which has
  left a reader on the table latch.
\<close>

definition between_calls ::
  "nat \<Rightarrow> ('k \<Rightarrow> nat) \<Rightarrow> nat \<Rightarrow> ('k, 'v) ExtendibleHashTable \<Rightarrow> bool" where
  "between_calls psz h B t \<longleftrightarrow>
     (\<exists>dm. t = fresh_table psz dm h B)
     \<or> (\<exists>k dm r dd db bd b. psz = Suc (Suc k) \<and> t = booted_table k dm h B r dd db bd
           \<and> as_bucket bd = Some b \<and> (r = 0 \<longrightarrow> b = []))"

text \<open>The directory of the table, read from its page in the pool.\<close>

definition table_directory :: "('k, 'v) ExtendibleHashTable \<Rightarrow> HashTableDirectoryPage option" where
  "table_directory t =
     (case map_of (page_table (buffer_pool_manager t)) (directory_page_id t) of
        None \<Rightarrow> None
      | Some dir_page \<Rightarrow> get_directory t dir_page)"

section \<open>Properties of the LRU replacer\<close>


lemma lru_inv_new: "lru_inv (new_LRUReplacer n)"
  by (simp add: lru_inv_def new_LRUReplacer_def)

lemma lru_inv_Victim: "lru_inv r \<Longrightarrow> lru_inv (snd (Victim r))"
proof -
  assume a: "lru_inv r"
  show ?thesis
  proof (cases "lru_list r = []")
    case True then show ?thesis using a by (simp add: Victim_def)
  next
    case False
    then obtain ys y where ys: "lru_list r = ys @ [y]" by (metis rev_exhaust)
    with a show ?thesis by (auto simp: Victim_def lru_inv_def)
  qed
qed

lemma lru_inv_Pin: "lru_inv r \<Longrightarrow> lru_inv (Pin f r)"
  by (auto simp: Pin_def lru_inv_def)

lemma lru_inv_Unpin: "lru_inv r \<Longrightarrow> lru_inv (Unpin f r)"
  by (auto simp: Unpin_def lru_inv_def)

lemma Pin_list: "lru_inv r \<Longrightarrow> lru_list (Pin f r) = filter (\<lambda>g. g \<noteq> f) (lru_list r)"
  by (auto simp: Pin_def lru_inv_def distinct_remove1_removeAll removeAll_filter_not_eq
      intro!: filter_True[symmetric] filter_cong)


lemma sorted_wrt_butlast: "sorted_wrt P xs \<Longrightarrow> sorted_wrt P (butlast xs)"
  by (induction xs) (auto dest: in_set_butlastD)

lemma sorted_wrt_remove1: "sorted_wrt P xs \<Longrightarrow> sorted_wrt P (remove1 x xs)"
  by (induction xs) (auto dest: notin_set_remove1)

lemma lru_rec_step:
  assumes "lru_rec (r, entered, clock)"
  shows "lru_rec (lru_step o1 r,
        (case o1 of
           OpUnpin f \<Rightarrow>
             if f \<notin> set (lru_list r) \<and> f \<in> set (lru_list (Unpin f r))
             then entered(f := clock) else entered
         | _ \<Rightarrow> entered),
        Suc clock)"
proof (cases o1)
  case OpVictim
  then show ?thesis using assms lru_inv_Victim[of r]
    by (auto simp: lru_rec_def Victim_def sorted_wrt_butlast dest: in_set_butlastD less_SucI)
next
  case (OpPin f)
  then show ?thesis using assms lru_inv_Pin[of r f]
    by (auto simp: lru_rec_def Pin_def sorted_wrt_remove1 less_SucI dest: set_remove1_subset[THEN subsetD])
next
  case (OpUnpin f)
  have inv: "lru_inv (Unpin f r)" using assms lru_inv_Unpin[of r f] by (simp add: lru_rec_def)
  show ?thesis
  proof (cases "f \<in> lru_hash r \<or> max_size r \<le> length (lru_list r)")
    case True
    then have "Unpin f r = r" by (auto simp: Unpin_def)
    then show ?thesis using assms OpUnpin by (auto simp: lru_rec_def less_SucI)
  next
    case False
    then have u: "lru_list (Unpin f r) = f # lru_list r" by (simp add: Unpin_def)
    have nf: "f \<notin> set (lru_list r)" using False assms by (auto simp: lru_rec_def lru_inv_def)
    have "sorted_wrt (\<lambda>a b. (entered(f := clock)) b < (entered(f := clock)) a) (lru_list r)"
      by (rule sorted_wrt_mono_rel[of _ "\<lambda>a b. entered b < entered a"])
         (use nf assms in \<open>auto simp: lru_rec_def\<close>)
    then show ?thesis using assms OpUnpin inv u nf
      by (auto simp: lru_rec_def less_SucI)
  qed
qed

lemma lru_rec_run: "lru_rec c \<Longrightarrow> lru_rec (lru_run ops c)"
proof (induction ops arbitrary: c)
  case Nil then show ?case by simp
next
  case (Cons o1 ops)
  obtain r entered clock where c: "c = (r, entered, clock)" by (cases c)
  show ?case unfolding c lru_run.simps
    by (rule Cons.IH) (rule lru_rec_step, use Cons.prems c in simp)
qed

lemma lru_rec_init: "lru_rec (new_LRUReplacer n, e0, 0)"
  by (simp add: lru_rec_def lru_inv_new) (simp add: new_LRUReplacer_def)

lemma sorted_wrt_last_least:
  "sorted_wrt (\<lambda>a b. (e b :: nat) < e a) xs \<Longrightarrow> xs \<noteq> [] \<Longrightarrow> g \<in> set xs \<Longrightarrow> g \<noteq> last xs \<Longrightarrow> e (last xs) < e g"
  by (induction xs) (auto split: if_splits)


lemma butlast_filter_last: "distinct xs \<Longrightarrow> xs \<noteq> [] \<Longrightarrow> butlast xs = filter (\<lambda>g. g \<noteq> last xs) xs"
proof -
  assume d: "distinct xs" and ne: "xs \<noteq> []"
  then obtain ys y where ys: "xs = ys @ [y]" by (metis rev_exhaust)
  with d have "filter (\<lambda>g. g \<noteq> y) ys = ys" by (auto intro: filter_True)
  then show ?thesis using ys by simp
qed

text \<open>
  C9. In every state a new replacer reaches by a history of calls: \<open>Victim\<close> fails exactly
  when no frame is evictable, and otherwise removes and returns the frame that entered the
  evictable set earliest (the back of the list); \<open>Unpin f\<close> puts \<open>f\<close> at the front only
  when \<open>f\<close> is absent and the size is below \<open>max_size\<close>, and changes nothing otherwise, so
  no entry is duplicated or moved and a repeated \<open>Unpin\<close> has no effect; \<open>Pin f\<close> removes
  \<open>f\<close>, keeps the order of the others, and is idempotent.
\<close>

theorem lru_replacer_contract:
  assumes run: "lru_run ops (new_LRUReplacer n, e0, 0) = (r, entered, clock)"
  shows "(fst (Victim r) = None) = (lru_hash r = {})
    \<and> (lru_hash r = {} \<longrightarrow> snd (Victim r) = r)
    \<and> (lru_hash r \<noteq> {} \<longrightarrow>
         (\<exists>v. fst (Victim r) = Some v \<and> v = last (lru_list r) \<and> v \<in> lru_hash r
            \<and> (\<forall>g \<in> lru_hash r. g \<noteq> v \<longrightarrow> entered v < entered g)
            \<and> lru_list (snd (Victim r)) = filter (\<lambda>g. g \<noteq> v) (lru_list r)
            \<and> lru_hash (snd (Victim r)) = lru_hash r - {v}))
    \<and> Unpin f r =
         (if f \<notin> lru_hash r \<and> Size r < max_size r
          then r\<lparr>lru_list := f # lru_list r, lru_hash := insert f (lru_hash r)\<rparr> else r)
    \<and> distinct (lru_list (Unpin f r))
    \<and> set (lru_list (Unpin f r)) = lru_hash (Unpin f r)
    \<and> Unpin f (Unpin f r) = Unpin f r
    \<and> lru_list (Pin f r) = filter (\<lambda>g. g \<noteq> f) (lru_list r)
    \<and> lru_hash (Pin f r) = lru_hash r - {f}
    \<and> Pin f (Pin f r) = Pin f r"
proof -
  have rec: "lru_rec (r, entered, clock)"
    using lru_rec_run[OF lru_rec_init, of ops n e0] run by simp
  then have inv: "lru_inv r"
    and srt: "sorted_wrt (\<lambda>a b. entered b < entered a) (lru_list r)"
    by (simp_all add: lru_rec_def)
  from inv have d: "distinct (lru_list r)" and h: "set (lru_list r) = lru_hash r"
    by (simp_all add: lru_inv_def)
  have c1: "(fst (Victim r) = None) = (lru_hash r = {})"
    using h by (auto simp: Victim_def)
  have c2: "lru_hash r = {} \<longrightarrow> snd (Victim r) = r"
    using h by (auto simp: Victim_def)
  have c3: "lru_hash r \<noteq> {} \<longrightarrow>
         (\<exists>v. fst (Victim r) = Some v \<and> v = last (lru_list r) \<and> v \<in> lru_hash r
            \<and> (\<forall>g \<in> lru_hash r. g \<noteq> v \<longrightarrow> entered v < entered g)
            \<and> lru_list (snd (Victim r)) = filter (\<lambda>g. g \<noteq> v) (lru_list r)
            \<and> lru_hash (snd (Victim r)) = lru_hash r - {v})"
  proof
    assume "lru_hash r \<noteq> {}"
    with h have ne: "lru_list r \<noteq> []" by auto
    have "\<forall>g \<in> lru_hash r. g \<noteq> last (lru_list r) \<longrightarrow> entered (last (lru_list r)) < entered g"
      using sorted_wrt_last_least[OF srt ne] h by blast
    moreover have "last (lru_list r) \<in> lru_hash r" using ne h last_in_set by blast
    ultimately show "\<exists>v. fst (Victim r) = Some v \<and> v = last (lru_list r) \<and> v \<in> lru_hash r
            \<and> (\<forall>g \<in> lru_hash r. g \<noteq> v \<longrightarrow> entered v < entered g)
            \<and> lru_list (snd (Victim r)) = filter (\<lambda>g. g \<noteq> v) (lru_list r)
            \<and> lru_hash (snd (Victim r)) = lru_hash r - {v}"
      using ne butlast_filter_last[OF d ne] by (simp add: Victim_def)
  qed
  have c4: "Unpin f r =
         (if f \<notin> lru_hash r \<and> Size r < max_size r
          then r\<lparr>lru_list := f # lru_list r, lru_hash := insert f (lru_hash r)\<rparr> else r)"
    by (simp add: Unpin_def Size_def)
  have c5: "distinct (lru_list (Unpin f r))" "set (lru_list (Unpin f r)) = lru_hash (Unpin f r)"
    using lru_inv_Unpin[OF inv, of f] by (simp_all add: lru_inv_def)
  have c6: "Unpin f (Unpin f r) = Unpin f r"
    by (simp add: Unpin_def)
  have c7: "lru_list (Pin f r) = filter (\<lambda>g. g \<noteq> f) (lru_list r)"
    by (rule Pin_list[OF inv])
  have c8: "lru_hash (Pin f r) = lru_hash r - {f}"
    by (simp add: Pin_def)
  have c9: "Pin f (Pin f r) = Pin f r"
    by (simp add: Pin_def)
  from c1 c2 c3 c4 c5 c6 c7 c8 c9 show ?thesis by blast
qed

theorem lru_replacer_contract_witness:
  "lru_run [OpUnpin 1, OpUnpin 2, OpUnpin 1, OpUnpin 3, OpPin 2] (new_LRUReplacer 3, (\<lambda>_. 0), 0)
     = (\<lparr>max_size = 3, lru_list = [3, 1], lru_hash = {1, 3}\<rparr>, (\<lambda>_. 0)(1 := 0, 2 := 1, 3 := 3), 5)
   \<and> fst (Victim \<lparr>max_size = 3, lru_list = [3, 1], lru_hash = {1, 3}\<rparr>) = Some 1
   \<and> lru_list (snd (Victim \<lparr>max_size = 3, lru_list = [3, 1], lru_hash = {1, 3}\<rparr>)) = [3]
   \<and> lru_list (Unpin 2 \<lparr>max_size = 3, lru_list = [3, 1], lru_hash = {1, 3}\<rparr>) = [2, 3, 1]
   \<and> Unpin 3 \<lparr>max_size = 3, lru_list = [3, 1], lru_hash = {1, 3}\<rparr>
       = \<lparr>max_size = 3, lru_list = [3, 1], lru_hash = {1, 3}\<rparr>
   \<and> lru_list (Pin 3 \<lparr>max_size = 3, lru_list = [3, 1], lru_hash = {1, 3}\<rparr>) = [1]"
proof -
  have run: "lru_run [OpUnpin 1, OpUnpin 2, OpUnpin 1, OpUnpin 3, OpPin 2] (new_LRUReplacer 3, (\<lambda>_. 0), 0)
     = (\<lparr>max_size = 3, lru_list = [3, 1], lru_hash = {1, 3}\<rparr>, (\<lambda>_. 0)(1 := 0, 2 := 1, 3 := 3), 5)"
    by (simp add: new_LRUReplacer_def Unpin_def Pin_def insert_Diff_if insert_commute eval_nat_numeral)
  show ?thesis
    using run lru_replacer_contract[OF run, of 2] lru_replacer_contract[OF run, of 3]
    by (simp add: Size_def)
qed

section \<open>Consistency of the buffer pool manager\<close>

lemma set_alist_delete: "set (AList.delete k al) = {e \<in> set al. fst e \<noteq> k}"
  by (auto simp: AList.delete_eq)

lemma set_alist_update:
  "distinct (map fst al) \<Longrightarrow> set (AList.update k v al) = insert (k, v) {e \<in> set al. fst e \<noteq> k}"
  by (induction al) (auto simp: rev_image_eqI)

lemma distinct_snd_delete: "distinct (map snd al) \<Longrightarrow> distinct (map snd (AList.delete k al))"
  by (simp add: AList.delete_eq distinct_map_filter)

lemma distinct_snd_update:
  "distinct (map fst al) \<Longrightarrow> distinct (map snd al) \<Longrightarrow>
   \<forall>e \<in> set al. fst e \<noteq> k \<longrightarrow> snd e \<noteq> v \<Longrightarrow>
   distinct (map snd (AList.update k v al))"
proof (induction al)
  case Nil then show ?case by simp
next
  case (Cons a al)
  obtain k' v' where a: "a = (k', v')" by (cases a)
  show ?case
  proof (cases "k' = k")
    case True
    then show ?thesis using Cons.prems a by (auto simp: rev_image_eqI)
  next
    case False
    have "v' \<notin> snd ` set (AList.update k v al)"
      using Cons.prems a False by (auto simp: set_alist_update)
    then show ?thesis using Cons a False by auto
  qed
qed

text \<open>Consistency reads five fields of the pool only.\<close>

lemma bpm_consistent_fields:
  assumes "bpm_consistent s"
    and "pool_size s' = pool_size s" "pages s' = pages s" "page_table s' = page_table s"
    and "free_list s' = free_list s" "replacer s' = replacer s"
  shows "bpm_consistent s'"
  using assms by (simp add: bpm_consistent_def bpm_inv_def)

lemma lru_inv_Pin': "lru_inv r \<Longrightarrow> lru_inv (Pin f r)"
  by (auto simp: Pin_def lru_inv_def)

lemma set_Pin_subset: "set (lru_list (Pin f r)) \<subseteq> set (lru_list r)"
  using set_remove1_subset[of f "lru_list r"] by (auto simp: Pin_def)

lemma install_consistent:
  assumes room: "bpm_room s f"
    and ps: "pool_size s' = pool_size s"
    and pg: "pages s' = (pages s)[nat f := pg']" "page_id pg' = p" "0 \<le> pin_count pg'"
    and pt: "page_table s' = AList.update p f (page_table s)"
    and fl: "free_list s' = free_list s"
    and rp: "replacer s' = Pin f (replacer s)"
  shows "bpm_consistent s'"
proof -
  from room have c: "bpm_consistent s" and f0: "0 \<le> f" and fp: "f < int (pool_size s)"
    and fnt: "f \<notin> snd ` set (page_table s)" and fnf: "f \<notin> set (free_list s)"
    by (simp_all add: bpm_room_def)
  from c have i: "bpm_inv s" and df: "distinct (free_list s)"
    and ds: "distinct (map snd (page_table s))"
    and fr: "\<forall>g \<in> set (free_list s). g \<notin> snd ` set (page_table s)
               \<and> g \<notin> set (lru_list (replacer s)) \<and> \<not> is_dirty (pages s ! nat g)"
    by (simp_all add: bpm_consistent_def)
  from i have len: "length (pages s) = pool_size s"
    and ms: "max_size (replacer s) = pool_size s"
    and li: "lru_inv (replacer s)"
    and rr: "\<forall>g \<in> set (lru_list (replacer s)). 0 \<le> g \<and> g < int (pool_size s)"
    and frr: "\<forall>g \<in> set (free_list s). 0 \<le> g \<and> g < int (pool_size s)"
    and dk: "distinct (map fst (page_table s))"
    and te: "\<forall>(q, g) \<in> set (page_table s). 0 \<le> g \<and> g < int (pool_size s)
                \<and> page_id (pages s ! nat g) = q"
    and pc: "\<forall>x \<in> set (pages s). 0 \<le> pin_count x"
    by (simp_all add: bpm_inv_def)
  have fl': "nat f < length (pages s)" using f0 fp len by simp
  have tab: "set (page_table s') = insert (p, f) {e \<in> set (page_table s). fst e \<noteq> p}"
    by (simp add: pt set_alist_update[OF dk])
  have other: "nat g \<noteq> nat f" if "(q, g) \<in> set (page_table s)" for q g
  proof -
    from that fnt have "g \<noteq> f" by force
    moreover from that te have "0 \<le> g" by auto
    ultimately show ?thesis using f0 by simp
  qed
  have i': "bpm_inv s'"
  proof -
    have h1: "length (pages s') = pool_size s'" by (simp add: pg ps len)
    have h2: "max_size (replacer s') = pool_size s'" by (simp add: rp ps ms Pin_def)
    have h3: "lru_inv (replacer s')" by (simp add: rp lru_inv_Pin'[OF li])
    have h4: "\<forall>g \<in> set (lru_list (replacer s')). 0 \<le> g \<and> g < int (pool_size s')"
      using rr set_Pin_subset[of f "replacer s"] by (auto simp: rp ps)
    have h5: "\<forall>g \<in> set (free_list s'). 0 \<le> g \<and> g < int (pool_size s')"
      using frr by (simp add: fl ps)
    have h6: "distinct (map fst (page_table s'))" by (simp add: pt distinct_update dk)
    have h7': "0 \<le> g \<and> g < int (pool_size s') \<and> page_id (pages s' ! nat g) = q"
      if m: "(q, g) \<in> set (page_table s')" for q g
    proof (cases "(q, g) = (p, f)")
      case True
      then show ?thesis using f0 fp fl' by (simp add: pg ps)
    next
      case False
      with m tab have o: "(q, g) \<in> set (page_table s)" by auto
      with te have "0 \<le> g \<and> g < int (pool_size s) \<and> page_id (pages s ! nat g) = q" by auto
      then show ?thesis using other[OF o] by (simp add: pg ps)
    qed
    then have h7: "\<forall>(q, g) \<in> set (page_table s'). 0 \<le> g \<and> g < int (pool_size s')
                \<and> page_id (pages s' ! nat g) = q"
      by blast
    have h8: "\<forall>x \<in> set (pages s'). 0 \<le> pin_count x"
      using pc pg(3) set_update_subset_insert[of "pages s" "nat f" pg'] by (auto simp: pg(1))
    show ?thesis unfolding bpm_inv_def using h1 h2 h3 h4 h5 h6 h7 h8 by blast
  qed
  have ds': "distinct (map snd (page_table s'))"
    unfolding pt
  proof (rule distinct_snd_update[OF dk ds])
    show "\<forall>e \<in> set (page_table s). fst e \<noteq> p \<longrightarrow> snd e \<noteq> f"
      using fnt by force
  qed
  have fr': "\<forall>g \<in> set (free_list s'). g \<notin> snd ` set (page_table s')
               \<and> g \<notin> set (lru_list (replacer s')) \<and> \<not> is_dirty (pages s' ! nat g)"
  proof
    fix g assume g: "g \<in> set (free_list s')"
    then have g0: "g \<in> set (free_list s)" by (simp add: fl)
    with fnf have gf: "g \<noteq> f" by auto
    from g0 frr have "0 \<le> g" by auto
    with gf f0 have ng: "nat g \<noteq> nat f" by simp
    from g0 fr have a: "g \<notin> snd ` set (page_table s)" "g \<notin> set (lru_list (replacer s))"
      "\<not> is_dirty (pages s ! nat g)" by auto
    have "g \<notin> snd ` set (page_table s')" using a(1) gf by (auto simp: tab)
    moreover have "g \<notin> set (lru_list (replacer s'))"
      using a(2) set_Pin_subset[of f "replacer s"] by (auto simp: rp)
    moreover have "\<not> is_dirty (pages s' ! nat g)" using a(3) ng by (simp add: pg)
    ultimately show "g \<notin> snd ` set (page_table s') \<and> g \<notin> set (lru_list (replacer s'))
        \<and> \<not> is_dirty (pages s' ! nat g)" by simp
  qed
  show ?thesis unfolding bpm_consistent_def using i' ds' fr' df by (simp add: fl)
qed

lemma consistentD:
  assumes "bpm_consistent s"
  shows "bpm_inv s" "distinct (free_list s)" "distinct (map snd (page_table s))"
    and "g \<in> set (free_list s) \<Longrightarrow> g \<notin> snd ` set (page_table s)"
    and "g \<in> set (free_list s) \<Longrightarrow> g \<notin> set (lru_list (replacer s))"
    and "g \<in> set (free_list s) \<Longrightarrow> \<not> is_dirty (pages s ! nat g)"
  using assms unfolding bpm_consistent_def by blast+

lemma invD:
  assumes "bpm_inv s"
  shows "length (pages s) = pool_size s" "max_size (replacer s) = pool_size s"
    "lru_inv (replacer s)" "distinct (map fst (page_table s))"
    and "g \<in> set (lru_list (replacer s)) \<Longrightarrow> 0 \<le> g \<and> g < int (pool_size s)"
    and "g \<in> set (free_list s) \<Longrightarrow> 0 \<le> g \<and> g < int (pool_size s)"
    and "(q, g) \<in> set (page_table s) \<Longrightarrow>
           0 \<le> g \<and> g < int (pool_size s) \<and> page_id (pages s ! nat g) = q"
    and "x \<in> set (pages s) \<Longrightarrow> 0 \<le> pin_count x"
  using assms unfolding bpm_inv_def by blast+

lemma room_free:
  assumes c: "bpm_consistent s" and ne: "free_list s \<noteq> []"
    and ps: "pool_size s1 = pool_size s" "pages s1 = pages s" "page_table s1 = page_table s"
      "replacer s1 = replacer s" "free_list s1 = tl (free_list s)"
  shows "bpm_room s1 (hd (free_list s))"
proof -
  let ?f = "hd (free_list s)"
  note i = consistentD(1)[OF c]
  from ne have m: "?f \<in> set (free_list s)" by simp
  from ne have tl: "set (tl (free_list s)) \<subseteq> set (free_list s)" by (cases "free_list s") auto
  have d: "distinct (tl (free_list s))" using consistentD(2)[OF c] by (rule distinct_tl)
  have nf: "?f \<notin> set (tl (free_list s))"
    using consistentD(2)[OF c] ne by (cases "free_list s") auto
  have i1: "bpm_inv s1"
    using i tl unfolding bpm_inv_def ps by blast
  have c1: "bpm_consistent s1"
    unfolding bpm_consistent_def ps(2-5)
    using i1 d consistentD(3-6)[OF c] tl by blast
  show ?thesis
    unfolding bpm_room_def
    using c1 invD(6)[OF i m] consistentD(4)[OF c m] nf by (simp add: ps)
qed

lemma Victim_butlast:
  "Victim r = (Some f, r') \<Longrightarrow>
     lru_list r \<noteq> [] \<and> f = last (lru_list r) \<and> lru_list r' = butlast (lru_list r)
     \<and> max_size r' = max_size r \<and> lru_hash r' = lru_hash r - {f}"
  by (auto simp: Victim_def split: if_splits)

lemma lru_inv_Victim':
  assumes "lru_inv r" "Victim r = (Some f, r')"
  shows "lru_inv r'" "set (lru_list r') \<subseteq> set (lru_list r)" "f \<in> set (lru_list r)"
proof -
  from Victim_butlast[OF assms(2)] have v: "lru_list r \<noteq> []" "f = last (lru_list r)"
    "lru_list r' = butlast (lru_list r)" "lru_hash r' = lru_hash r - {f}" by simp_all
  from v(1) obtain ys y where ys: "lru_list r = ys @ [y]" by (metis rev_exhaust)
  with assms(1) v show "lru_inv r'" by (auto simp: lru_inv_def)
  show "set (lru_list r') \<subseteq> set (lru_list r)" using v(3) by (auto dest: in_set_butlastD)
  show "f \<in> set (lru_list r)" using v(1,2) by simp
qed

lemma room_victim:
  assumes c: "bpm_consistent s" and v: "Victim (replacer s) = (Some f, r)"
    and ps: "pool_size s1 = pool_size s" "pages s1 = pages s"
      "page_table s1 = AList.delete (page_id (pages s ! nat f)) (page_table s)"
      "replacer s1 = r" "free_list s1 = free_list s"
  shows "bpm_room s1 f"
proof -
  note i = consistentD(1)[OF c]
  note lv = lru_inv_Victim'[OF invD(3)[OF i] v]
  have ms: "max_size r = max_size (replacer s)" using Victim_butlast[OF v] by simp
  have fr: "0 \<le> f \<and> f < int (pool_size s)" by (rule invD(5)[OF i lv(3)])
  have sub: "set (page_table s1) \<subseteq> set (page_table s)"
    by (auto simp: ps set_alist_delete)
  have i1: "bpm_inv s1"
  proof -
    have h6: "distinct (map fst (page_table s1))" by (simp add: ps distinct_delete invD(4)[OF i])
    have h7: "\<forall>(q, g) \<in> set (page_table s1). 0 \<le> g \<and> g < int (pool_size s1)
                \<and> page_id (pages s1 ! nat g) = q"
      using sub invD(7)[OF i] by (auto simp: ps(1,2))
    show ?thesis
      unfolding bpm_inv_def
      using h6 h7 invD(1,2)[OF i] lv(1) ms invD(5,6,8)[OF i] lv(2)
      by (auto simp: ps(1,2,4,5))
  qed
  have ds: "distinct (map snd (page_table s1))"
    by (simp add: ps distinct_snd_delete consistentD(3)[OF c])
  have sub2: "snd ` set (page_table s1) \<subseteq> snd ` set (page_table s)"
    using sub by (rule image_mono)
  have fr1: "\<forall>g \<in> set (free_list s1). g \<notin> snd ` set (page_table s1)
               \<and> g \<notin> set (lru_list (replacer s1)) \<and> \<not> is_dirty (pages s1 ! nat g)"
  proof
    fix g assume "g \<in> set (free_list s1)"
    then have g: "g \<in> set (free_list s)" by (simp add: ps)
    have "g \<notin> snd ` set (page_table s1)" using consistentD(4)[OF c g] sub2 by blast
    moreover have "g \<notin> set (lru_list (replacer s1))"
      using consistentD(5)[OF c g] lv(2) by (auto simp: ps(4))
    moreover have "\<not> is_dirty (pages s1 ! nat g)" using consistentD(6)[OF c g] by (simp add: ps(2))
    ultimately show "g \<notin> snd ` set (page_table s1)
               \<and> g \<notin> set (lru_list (replacer s1)) \<and> \<not> is_dirty (pages s1 ! nat g)"
      by simp
  qed
  have c1: "bpm_consistent s1"
    unfolding bpm_consistent_def
    using i1 ds consistentD(2)[OF c] fr1 by (simp add: ps(5))
  have nt: "f \<notin> snd ` set (page_table s1)"
  proof
    assume "f \<in> snd ` set (page_table s1)"
    then obtain q where q: "(q, f) \<in> set (page_table s1)" by force
    then have "(q, f) \<in> set (page_table s)" using sub by auto
    from invD(7)[OF i this] have "page_id (pages s ! nat f) = q" by simp
    with q show False by (simp add: ps set_alist_delete)
  qed
  have nf: "f \<notin> set (free_list s1)"
    using consistentD(5)[OF c, of f] lv(3) by (auto simp: ps)
  show ?thesis unfolding bpm_room_def using c1 fr nt nf by (simp add: ps)
qed

lemma NewPg_construct_consistent:
  assumes room: "bpm_room s0 f" and run: "NewPg_construct f page s0 = Some (r, s')"
  shows "bpm_consistent s'"
proof -
  from run obtain p where
    f: "pool_size s' = pool_size s0"
       "pages s' = (pages s0)[nat f := page\<lparr>page_id := p, pin_count := 1, is_dirty := False, data := 0\<rparr>]"
       "page_table s' = AList.update p f (page_table s0)"
       "free_list s' = free_list s0" "replacer s' = Pin f (replacer s0)"
    by (auto simp: NewPg_construct_def AllocatePage_def Let_def set_frame_def ResetMemory_def
        split: option.splits if_splits)
  show ?thesis
    by (rule install_consistent[OF room f(1,2) _ _ f(3,4,5)]) simp_all
qed

lemma FetchPg_load_consistent:
  assumes room: "bpm_room s0 f" and run: "FetchPg_load p f page s0 = Some (r, s')"
  shows "bpm_consistent s'"
proof -
  from run obtain bytes where
    f: "pool_size s' = pool_size s0"
       "pages s' = (pages s0)[nat f := page\<lparr>page_id := p, pin_count := 1, is_dirty := False, data := bytes\<rparr>]"
       "page_table s' = AList.update p f (page_table s0)"
       "free_list s' = free_list s0" "replacer s' = Pin f (replacer s0)"
    by (auto simp: FetchPg_load_def ReadPage_def Let_def set_frame_def)
  show ?thesis
    by (rule install_consistent[OF room f(1,2) _ _ f(3,4,5)]) simp_all
qed

lemma NewPgImp_consistent:
  assumes c: "bpm_consistent s" and run: "NewPgImp s = Some (r, s')"
  shows "bpm_consistent s'"
proof (cases "free_list s \<noteq> []")
  case True
  let ?s1 = "s\<lparr>free_list := tl (free_list s)\<rparr>"
  have room: "bpm_room ?s1 (hd (free_list s))" by (rule room_free[OF c True]) simp_all
  from run True obtain page where "NewPg_construct (hd (free_list s)) page ?s1 = Some (r, s')"
    by (auto simp: NewPgImp_def Let_def split: option.splits)
  then show ?thesis by (rule NewPg_construct_consistent[OF room])
next
  case False
  show ?thesis
  proof (cases "fst (Victim (replacer s))")
    case None
    then have "s' = s\<lparr>replacer := snd (Victim (replacer s))\<rparr>" "snd (Victim (replacer s)) = replacer s"
      using run False by (auto simp: NewPgImp_def Victim_def split: prod.splits option.splits if_splits)
    then show ?thesis using c by (auto intro: bpm_consistent_fields)
  next
    case (Some f)
    then obtain rr where v: "Victim (replacer s) = (Some f, rr)" by (cases "Victim (replacer s)") auto
    let ?pg = "pages s ! nat f"
    define s2 where "s2 = (if is_dirty ?pg
        then s\<lparr>replacer := rr, disk_manager := WritePage (page_id ?pg) (data ?pg) (disk_manager s)\<rparr>
        else s\<lparr>replacer := rr\<rparr>)"
    define s3 where "s3 = s2\<lparr>page_table := AList.delete (page_id ?pg) (page_table s2)\<rparr>"
    have s3: "pool_size s3 = pool_size s" "pages s3 = pages s"
        "page_table s3 = AList.delete (page_id ?pg) (page_table s)"
        "replacer s3 = rr" "free_list s3 = free_list s"
      by (simp_all add: s3_def s2_def)
    have fa: "frame_at (s\<lparr>replacer := rr\<rparr>) f \<noteq> None \<Longrightarrow>
               frame_at (s\<lparr>replacer := rr\<rparr>) f = Some ?pg"
      by (simp add: frame_at_def split: if_splits)
    from run False v have r3: "NewPg_construct f ?pg s3 = Some (r, s')"
      using fa by (auto simp: NewPgImp_def Let_def s3_def s2_def split: option.splits)
    have room: "bpm_room s3 f" by (rule room_victim[OF c v s3])
    show ?thesis by (rule NewPg_construct_consistent[OF room r3])
  qed
qed

lemma lru_inv_Unpin': "lru_inv r \<Longrightarrow> lru_inv (Unpin f r)"
  by (auto simp: Unpin_def lru_inv_def)

lemma set_Unpin_subset: "set (lru_list (Unpin f r)) \<subseteq> insert f (set (lru_list r))"
  by (auto simp: Unpin_def)

lemma max_size_Pin_Unpin:
  "max_size (Pin f r) = max_size r" "max_size (Unpin f r) = max_size r"
  by (simp_all add: Pin_def Unpin_def)

text \<open>A change of the page in a frame of the page table that keeps its page id.\<close>

lemma modify_consistent:
  assumes c: "bpm_consistent s" and tg: "(q, g) \<in> set (page_table s)"
    and ps: "pool_size s' = pool_size s" "pages s' = (pages s)[nat g := pg']"
      "page_table s' = page_table s" "free_list s' = free_list s"
    and pg: "page_id pg' = page_id (pages s ! nat g)" "0 \<le> pin_count pg'"
    and rp: "replacer s' = replacer s \<or> replacer s' = Pin g (replacer s)
               \<or> replacer s' = Unpin g (replacer s)"
  shows "bpm_consistent s'"
proof -
  note i = consistentD(1)[OF c]
  note gr = invD(7)[OF i tg]
  have gnf: "g \<notin> set (free_list s)" using consistentD(4)[OF c, of g] tg by force
  have li: "lru_inv (replacer s')"
    using rp invD(3)[OF i] lru_inv_Pin'[of "replacer s" g] lru_inv_Unpin'[of "replacer s" g]
    by auto
  have ms: "max_size (replacer s') = pool_size s'"
    using rp invD(2)[OF i] ps(1) by (auto simp: max_size_Pin_Unpin)
  have sub: "set (lru_list (replacer s')) \<subseteq> insert g (set (lru_list (replacer s)))"
    using rp set_Pin_subset[of g "replacer s"] set_Unpin_subset[of g "replacer s"] by auto
  have h4: "\<forall>f \<in> set (lru_list (replacer s')). 0 \<le> f \<and> f < int (pool_size s')"
    using sub gr invD(5)[OF i] by (auto simp: ps(1))
  have h5: "\<forall>f \<in> set (free_list s'). 0 \<le> f \<and> f < int (pool_size s')"
    using invD(6)[OF i] by (simp add: ps)
  have h7': "0 \<le> f \<and> f < int (pool_size s') \<and> page_id (pages s' ! nat f) = p"
    if m: "(p, f) \<in> set (page_table s')" for p f
  proof -
    from m have m0: "(p, f) \<in> set (page_table s)" by (simp add: ps)
    note fr = invD(7)[OF i m0]
    show ?thesis
    proof (cases "nat f = nat g")
      case True
      then have "f = g" using fr gr by (simp add: eq_nat_nat_iff)
      moreover have "nat g < length (pages s)" using gr invD(1)[OF i] by auto
      ultimately show ?thesis using fr gr pg(1) by (simp add: ps)
    next
      case False
      then show ?thesis using fr by (simp add: ps)
    qed
  qed
  then have h7: "\<forall>(p, f) \<in> set (page_table s'). 0 \<le> f \<and> f < int (pool_size s')
                \<and> page_id (pages s' ! nat f) = p" by blast
  have h8: "\<forall>x \<in> set (pages s'). 0 \<le> pin_count x"
    using invD(8)[OF i] pg(2) set_update_subset_insert[of "pages s" "nat g" pg']
    by (auto simp: ps(2))
  have i': "bpm_inv s'"
    unfolding bpm_inv_def
    using invD(1)[OF i] ms li h4 h5 invD(4)[OF i] h7 h8 by (simp add: ps)
  have fr': "\<forall>f \<in> set (free_list s'). f \<notin> snd ` set (page_table s')
               \<and> f \<notin> set (lru_list (replacer s')) \<and> \<not> is_dirty (pages s' ! nat f)"
  proof
    fix f assume "f \<in> set (free_list s')"
    then have f: "f \<in> set (free_list s)" by (simp add: ps)
    with gnf have ne: "f \<noteq> g" by auto
    have "0 \<le> f" using invD(6)[OF i f] by simp
    with ne gr have nn: "nat f \<noteq> nat g" by (simp add: eq_nat_nat_iff)
    have "f \<notin> snd ` set (page_table s')" using consistentD(4)[OF c f] by (simp add: ps)
    moreover have "f \<notin> set (lru_list (replacer s'))"
      using consistentD(5)[OF c f] sub ne by auto
    moreover have "\<not> is_dirty (pages s' ! nat f)"
      using consistentD(6)[OF c f] nn by (simp add: ps)
    ultimately show "f \<notin> snd ` set (page_table s')
               \<and> f \<notin> set (lru_list (replacer s')) \<and> \<not> is_dirty (pages s' ! nat f)" by simp
  qed
  show ?thesis
    unfolding bpm_consistent_def
    using i' consistentD(2,3)[OF c] fr' by (simp add: ps)
qed

lemma FetchPgImp_consistent:
  assumes c: "bpm_consistent s" and run: "FetchPgImp s p = Some (r, s')"
  shows "bpm_consistent s'"
proof (cases "map_of (page_table s) p")
  case (Some g)
  then have tg: "(p, g) \<in> set (page_table s)" by (rule map_of_SomeD)
  let ?pg = "pages s ! nat g"
  from run Some have
    f: "pool_size s' = pool_size s" "pages s' = (pages s)[nat g := ?pg\<lparr>pin_count := pin_count ?pg + 1\<rparr>]"
      "page_table s' = page_table s" "free_list s' = free_list s"
      "replacer s' = Pin g (replacer s)"
    by (auto simp: FetchPgImp_def Let_def frame_at_def set_frame_def split: option.splits if_splits)
  have "nat g < length (pages s)"
    using invD(7)[OF consistentD(1)[OF c] tg] invD(1)[OF consistentD(1)[OF c]] by auto
  then have "?pg \<in> set (pages s)" by (rule nth_mem)
  then have "0 \<le> pin_count ?pg" by (rule invD(8)[OF consistentD(1)[OF c]])
  then show ?thesis
    by (intro modify_consistent[OF c tg f(1,2,3,4)]) (simp_all add: f(5))
next
  case None
  show ?thesis
  proof (cases "free_list s \<noteq> []")
    case True
    let ?s1 = "s\<lparr>free_list := tl (free_list s)\<rparr>"
    have room: "bpm_room ?s1 (hd (free_list s))" by (rule room_free[OF c True]) simp_all
    from run None True obtain page where
      "FetchPg_load p (hd (free_list s)) page ?s1 = Some (r, s')"
      by (auto simp: FetchPgImp_def Let_def split: option.splits)
    then show ?thesis by (rule FetchPg_load_consistent[OF room])
  next
    case False
    show ?thesis
    proof (cases "fst (Victim (replacer s))")
      case n: None
      then have "s' = s\<lparr>replacer := snd (Victim (replacer s))\<rparr>"
        "snd (Victim (replacer s)) = replacer s"
        using run None False
        by (auto simp: FetchPgImp_def Victim_def split: prod.splits option.splits if_splits)
      then show ?thesis using c by (auto intro: bpm_consistent_fields)
    next
      case (Some f)
      then obtain rr where v: "Victim (replacer s) = (Some f, rr)"
        by (cases "Victim (replacer s)") auto
      let ?pg = "pages s ! nat f"
      define s2 where "s2 = (if is_dirty ?pg
          then s\<lparr>replacer := rr, disk_manager := WritePage (page_id ?pg) (data ?pg) (disk_manager s)\<rparr>
          else s\<lparr>replacer := rr\<rparr>)"
      define s3 where "s3 = s2\<lparr>page_table := AList.delete (page_id ?pg) (page_table s2)\<rparr>"
      have s3: "pool_size s3 = pool_size s" "pages s3 = pages s"
          "page_table s3 = AList.delete (page_id ?pg) (page_table s)"
          "replacer s3 = rr" "free_list s3 = free_list s"
        by (simp_all add: s3_def s2_def)
      have fa: "frame_at (s\<lparr>replacer := rr\<rparr>) f \<noteq> None \<Longrightarrow>
                 frame_at (s\<lparr>replacer := rr\<rparr>) f = Some ?pg"
        by (simp add: frame_at_def split: if_splits)
      from run None False v have r3: "FetchPg_load p f ?pg s3 = Some (r, s')"
        using fa by (auto simp: FetchPgImp_def Let_def s3_def s2_def split: option.splits)
      have room: "bpm_room s3 f" by (rule room_victim[OF c v s3])
      show ?thesis by (rule FetchPg_load_consistent[OF room r3])
    qed
  qed
qed

lemma UnpinPgImp_consistent:
  assumes c: "bpm_consistent s" and run: "UnpinPgImp s p d = Some (r, s')"
  shows "bpm_consistent s'"
proof (cases "map_of (page_table s) p")
  case None
  then show ?thesis using run c by (simp add: UnpinPgImp_def)
next
  case (Some g)
  then have tg: "(p, g) \<in> set (page_table s)" by (rule map_of_SomeD)
  let ?pg = "pages s ! nat g"
  show ?thesis
  proof (cases "pin_count ?pg \<le> 0")
    case True
    then show ?thesis using run c Some
      by (auto simp: UnpinPgImp_def frame_at_def split: option.splits if_splits)
  next
    case False
    let ?pg' = "?pg\<lparr>pin_count := pin_count ?pg - 1, is_dirty := (is_dirty ?pg \<or> d)\<rparr>"
    from run Some False have
      f: "pool_size s' = pool_size s" "pages s' = (pages s)[nat g := ?pg']"
        "page_table s' = page_table s" "free_list s' = free_list s"
        "replacer s' = replacer s \<or> replacer s' = Unpin g (replacer s)"
      by (auto simp: UnpinPgImp_def Let_def frame_at_def set_frame_def
          split: option.splits if_splits)
    show ?thesis
      by (rule modify_consistent[OF c tg f(1,2,3,4)]) (use False f(5) in auto)
  qed
qed

lemma Pin_not_member: "lru_inv r \<Longrightarrow> f \<notin> set (lru_list (Pin f r))"
  by (auto simp: Pin_def lru_inv_def)

lemma DeallocatePage_consistent: "bpm_consistent s \<Longrightarrow> bpm_consistent (DeallocatePage p s)"
  by (rule bpm_consistent_fields) (simp_all add: DeallocatePage_def)

text \<open>Giving the frame of a page of the page table back to the free list.\<close>

lemma release_consistent:
  assumes c: "bpm_consistent s" and tg: "(p, g) \<in> set (page_table s)"
    and ps: "pool_size s' = pool_size s" "pages s' = (pages s)[nat g := pg']"
      "page_table s' = AList.delete p (page_table s)" "free_list s' = free_list s @ [g]"
      "replacer s' = Pin g (replacer s)"
    and pg: "\<not> is_dirty pg'" "0 \<le> pin_count pg'"
  shows "bpm_consistent s'"
proof -
  note i = consistentD(1)[OF c]
  note gr = invD(7)[OF i tg]
  have gnf: "g \<notin> set (free_list s)" using consistentD(4)[OF c, of g] tg by force
  have gl: "nat g < length (pages s)" using gr invD(1)[OF i] by auto
  have tbl: "set (page_table s') = {e \<in> set (page_table s). fst e \<noteq> p}"
    by (simp add: ps set_alist_delete)
  have other: "(q, f) \<in> set (page_table s) \<and> q \<noteq> p \<and> f \<noteq> g"
    if m: "(q, f) \<in> set (page_table s')" for q f
  proof -
    from m tbl have m0: "(q, f) \<in> set (page_table s)" and ne: "q \<noteq> p" by auto
    have "f \<noteq> g"
    proof
      assume "f = g"
      with m0 have qg: "(q, g) \<in> set (page_table s)" by simp
      have "inj_on snd (set (page_table s))"
        using consistentD(3)[OF c] by (simp add: distinct_map)
      from inj_onD[OF this _ qg tg] have "q = p" by simp
      with ne show False by simp
    qed
    with m0 ne show ?thesis by simp
  qed
  have gnt: "g \<notin> snd ` set (page_table s')" using other by force
  have li: "lru_inv (replacer s')" using invD(3)[OF i] by (simp add: ps lru_inv_Pin')
  have gnl: "g \<notin> set (lru_list (replacer s'))" using invD(3)[OF i] by (simp add: ps Pin_not_member)
  have sub: "set (lru_list (replacer s')) \<subseteq> set (lru_list (replacer s))"
    by (simp add: ps set_Pin_subset)
  have h4: "\<forall>f \<in> set (lru_list (replacer s')). 0 \<le> f \<and> f < int (pool_size s')"
    using sub invD(5)[OF i] by (auto simp: ps(1))
  have h5: "\<forall>f \<in> set (free_list s'). 0 \<le> f \<and> f < int (pool_size s')"
    using invD(6)[OF i] gr by (auto simp: ps)
  have h6: "distinct (map fst (page_table s'))"
    using invD(4)[OF i] by (simp add: ps distinct_delete)
  have h7': "0 \<le> f \<and> f < int (pool_size s') \<and> page_id (pages s' ! nat f) = q"
    if m: "(q, f) \<in> set (page_table s')" for q f
  proof -
    from other[OF m] have m0: "(q, f) \<in> set (page_table s)" and ne: "f \<noteq> g" by simp_all
    note fr = invD(7)[OF i m0]
    from ne fr gr have "nat f \<noteq> nat g" by (simp add: eq_nat_nat_iff)
    then show ?thesis using fr by (simp add: ps)
  qed
  then have h7: "\<forall>(q, f) \<in> set (page_table s'). 0 \<le> f \<and> f < int (pool_size s')
                \<and> page_id (pages s' ! nat f) = q" by blast
  have h8: "\<forall>x \<in> set (pages s'). 0 \<le> pin_count x"
    using invD(8)[OF i] pg(2) set_update_subset_insert[of "pages s" "nat g" pg']
    by (auto simp: ps(2))
  have i': "bpm_inv s'"
    unfolding bpm_inv_def
    using invD(1,2)[OF i] li h4 h5 h6 h7 h8 by (simp add: ps max_size_Pin_Unpin)
  have d1: "distinct (free_list s')" using consistentD(2)[OF c] gnf by (simp add: ps)
  have d2: "distinct (map snd (page_table s'))"
    using consistentD(3)[OF c] by (simp add: ps distinct_snd_delete)
  have fr': "\<forall>f \<in> set (free_list s'). f \<notin> snd ` set (page_table s')
               \<and> f \<notin> set (lru_list (replacer s')) \<and> \<not> is_dirty (pages s' ! nat f)"
  proof
    fix f assume "f \<in> set (free_list s')"
    then consider "f = g" | "f \<in> set (free_list s)" "f \<noteq> g" using gnf by (auto simp: ps)
    then show "f \<notin> snd ` set (page_table s')
               \<and> f \<notin> set (lru_list (replacer s')) \<and> \<not> is_dirty (pages s' ! nat f)"
    proof cases
      case 1
      then show ?thesis using gnt gnl gl pg(1) by (simp add: ps(2))
    next
      case 2
      have "0 \<le> f" using invD(6)[OF i 2(1)] by simp
      with 2(2) gr have nn: "nat f \<noteq> nat g" by (simp add: eq_nat_nat_iff)
      have "f \<notin> snd ` set (page_table s')" using consistentD(4)[OF c 2(1)] tbl by force
      moreover have "f \<notin> set (lru_list (replacer s'))"
        using consistentD(5)[OF c 2(1)] sub by auto
      moreover have "\<not> is_dirty (pages s' ! nat f)"
        using consistentD(6)[OF c 2(1)] nn by (simp add: ps)
      ultimately show ?thesis by simp
    qed
  qed
  show ?thesis
    unfolding bpm_consistent_def using i' d1 d2 fr' by simp
qed

lemma DeletePgImp_consistent:
  assumes c: "bpm_consistent s" and run: "DeletePgImp s p = Some (r, s')"
  shows "bpm_consistent s'"
proof -
  let ?s0 = "DeallocatePage p s"
  have c0: "bpm_consistent ?s0" by (rule DeallocatePage_consistent[OF c])
  have t0: "page_table ?s0 = page_table s" "pages ?s0 = pages s"
    by (simp_all add: DeallocatePage_def)
  show ?thesis
  proof (cases "map_of (page_table s) p")
    case None
    then show ?thesis using run c0 by (simp add: DeletePgImp_def Let_def t0)
  next
    case (Some g)
    then have tg: "(p, g) \<in> set (page_table ?s0)" by (simp add: t0 map_of_SomeD)
    let ?pg = "pages s ! nat g"
    note gr = invD(7)[OF consistentD(1)[OF c0] tg]
    have pid: "page_id ?pg = p" using gr by (simp add: t0)
    show ?thesis
    proof (cases "pin_count ?pg > 0")
      case True
      then show ?thesis using run c0 Some
        by (auto simp: DeletePgImp_def Let_def t0 frame_at_def split: option.splits if_splits)
    next
      case False
      let ?pg' = "ResetMemory (?pg\<lparr>is_dirty := False, pin_count := 0, page_id := INVALID_PAGE_ID\<rparr>)"
      from run Some False pid have
        f: "pool_size s' = pool_size ?s0" "pages s' = (pages ?s0)[nat g := ?pg']"
          "page_table s' = AList.delete p (page_table ?s0)"
          "free_list s' = free_list ?s0 @ [g]"
          "replacer s' = Pin g (replacer ?s0)"
        by (auto simp: DeletePgImp_def Let_def t0 frame_at_def set_frame_def DeallocatePage_def
            split: option.splits if_splits)
      show ?thesis
        by (rule release_consistent[OF c0 tg f]) (simp_all add: ResetMemory_def)
    qed
  qed
qed

lemma FlushPgImp_consistent:
  assumes c: "bpm_consistent s" and run: "FlushPgImp s p = Some (r, s')"
  shows "bpm_consistent s'"
proof (cases "p = INVALID_PAGE_ID \<or> map_of (page_table s) p = None")
  case True
  then show ?thesis using run c by (auto simp: FlushPgImp_def split: if_splits)
next
  case False
  then obtain g where g: "map_of (page_table s) p = Some g" and np: "p \<noteq> INVALID_PAGE_ID"
    by auto
  then have tg: "(p, g) \<in> set (page_table s)" by (simp add: map_of_SomeD)
  let ?pg = "pages s ! nat g"
  have gl: "nat g < length (pages s)"
    using invD(7)[OF consistentD(1)[OF c] tg] invD(1)[OF consistentD(1)[OF c]] by auto
  then have "?pg \<in> set (pages s)" by (rule nth_mem)
  then have pc: "0 \<le> pin_count ?pg" by (rule invD(8)[OF consistentD(1)[OF c]])
  from run g np have
    f: "pool_size s' = pool_size s" "pages s' = (pages s)[nat g := ?pg\<lparr>is_dirty := False\<rparr>]"
      "page_table s' = page_table s" "free_list s' = free_list s"
      "replacer s' = replacer s"
    by (auto simp: FlushPgImp_def Let_def frame_at_def set_frame_def split: option.splits if_splits)
  show ?thesis
    by (rule modify_consistent[OF c tg f(1,2,3,4)]) (use pc f(5) in simp_all)
qed

lemma FlushAll_loop_consistent:
  "bpm_consistent s \<Longrightarrow> FlushAll_loop xs s = Some s' \<Longrightarrow> bpm_consistent s'"
proof (induction xs arbitrary: s)
  case Nil
  then show ?case by simp
next
  case (Cons x xs)
  obtain p f where x: "x = (p, f)" by (cases x)
  from Cons.prems(2) x obtain page where
    "frame_at s f = Some page" and
    r: "FlushAll_loop xs (if is_dirty page
          then s\<lparr>disk_manager := WritePage p (data page) (disk_manager s)\<rparr> else s) = Some s'"
    by (auto split: option.splits)
  have "bpm_consistent (if is_dirty page
          then s\<lparr>disk_manager := WritePage p (data page) (disk_manager s)\<rparr> else s)"
    by (rule bpm_consistent_fields[OF Cons.prems(1)]) simp_all
  then show ?case using r by (rule Cons.IH)
qed

lemma FlushAllPgsImp_consistent:
  "bpm_consistent s \<Longrightarrow> FlushAllPgsImp s = Some s' \<Longrightarrow> bpm_consistent s'"
  unfolding FlushAllPgsImp_def by (rule FlushAll_loop_consistent)

lemma write_bytes_consistent:
  assumes c: "bpm_consistent s" and run: "write_bytes p b s = Some s'"
  shows "bpm_consistent s'"
proof -
  from run obtain g where g: "map_of (page_table s) p = Some g"
    by (auto simp: write_bytes_def split: option.splits)
  then have tg: "(p, g) \<in> set (page_table s)" by (simp add: map_of_SomeD)
  let ?pg = "pages s ! nat g"
  have gl: "nat g < length (pages s)"
    using invD(7)[OF consistentD(1)[OF c] tg] invD(1)[OF consistentD(1)[OF c]] by auto
  then have "?pg \<in> set (pages s)" by (rule nth_mem)
  then have pc: "0 \<le> pin_count ?pg" by (rule invD(8)[OF consistentD(1)[OF c]])
  from run g have
    f: "pool_size s' = pool_size s" "pages s' = (pages s)[nat g := ?pg\<lparr>data := b\<rparr>]"
      "page_table s' = page_table s" "free_list s' = free_list s"
      "replacer s' = replacer s"
    by (auto simp: write_bytes_def frame_at_def set_frame_def split: option.splits if_splits)
  show ?thesis
    by (rule modify_consistent[OF c tg f(1,2,3,4)]) (use pc f(5) in simp_all)
qed

lemma bpm_step_consistent:
  assumes c: "bpm_consistent s" and run: "bpm_step call s = Some s'"
  shows "bpm_consistent s'"
proof (cases call)
  case CallNewPage
  with run obtain r where "NewPgImp s = Some (r, s')" by auto
  then show ?thesis by (rule NewPgImp_consistent[OF c])
next
  case (CallFetchPage p)
  with run obtain r where "FetchPgImp s p = Some (r, s')" by auto
  then show ?thesis by (rule FetchPgImp_consistent[OF c])
next
  case (CallUnpinPage p d)
  with run obtain r where "UnpinPgImp s p d = Some (r, s')" by auto
  then show ?thesis by (rule UnpinPgImp_consistent[OF c])
next
  case (CallDeletePage p)
  with run obtain r where "DeletePgImp s p = Some (r, s')" by auto
  then show ?thesis by (rule DeletePgImp_consistent[OF c])
next
  case (CallFlushPage p)
  with run obtain r where "FlushPgImp s p = Some (r, s')" by auto
  then show ?thesis by (rule FlushPgImp_consistent[OF c])
next
  case CallFlushAllPages
  with run show ?thesis using FlushAllPgsImp_consistent[OF c] by simp
next
  case (CallWriteBytes p b)
  with run show ?thesis using write_bytes_consistent[OF c] by simp
qed

lemma bpm_run_consistent:
  "bpm_consistent s \<Longrightarrow> bpm_run calls s = Some s' \<Longrightarrow> bpm_consistent s'"
proof (induction calls arbitrary: s)
  case Nil
  then show ?case by simp
next
  case (Cons c cs)
  from Cons.prems(2) obtain s1 where s1: "bpm_step c s = Some s1" "bpm_run cs s1 = Some s'"
    by (auto split: option.splits)
  from bpm_step_consistent[OF Cons.prems(1) s1(1)] s1(2) show ?case by (rule Cons.IH)
qed

lemma new_BufferPoolManagerInstance_consistent:
  "bpm_consistent (new_BufferPoolManagerInstance psize n idx dm)"
  by (auto simp: bpm_consistent_def bpm_inv_def new_BufferPoolManagerInstance_def
      new_LRUReplacer_def lru_inv_def new_Page_def distinct_map inj_on_def)

lemma reachable_consistent:
  "bpm_run calls (new_BufferPoolManagerInstance psize n idx dm) = Some s \<Longrightarrow> bpm_consistent s"
  by (rule bpm_run_consistent[OF new_BufferPoolManagerInstance_consistent])

text \<open>
  Every state the pool reaches from its constructor by calls that return is consistent; in
  particular it satisfies \<open>bpm_inv\<close>, and its free frames hold no unwritten data.
\<close>

lemma reachable_inv:
  "bpm_run calls (new_BufferPoolManagerInstance psize n idx dm) = Some s \<Longrightarrow> bpm_inv s"
  by (rule consistentD(1)[OF reachable_consistent])

lemma example_pool_run:
  "bpm_run [CallNewPage, CallNewPage, CallWriteBytes 0 7, CallUnpinPage 0 True]
     (new_BufferPoolManagerInstance 2 1 0 example_disk) = Some example_pool"
  by (simp add: new_BufferPoolManagerInstance_def new_Page_def new_LRUReplacer_def NewPgImp_def
      NewPg_construct_def AllocatePage_def ValidatePageId_def frame_at_def set_frame_def
      ResetMemory_def Pin_def Unpin_def UnpinPgImp_def write_bytes_def example_pool_def Let_def
      upt_rec numeral_2_eq_2)

section \<open>Properties of the buffer pool manager\<close>

lemma frame_at_Some:
  "0 \<le> f \<Longrightarrow> nat f < length (pages s) \<Longrightarrow> frame_at s f = Some (pages s ! nat f)"
  by (simp add: frame_at_def)

lemma bpm_inv_resident:
  assumes "bpm_inv s" "map_of (page_table s) p = Some f"
  shows "0 \<le> f" "nat f < length (pages s)" "f < int (pool_size s)"
        "page_id (pages s ! nat f) = p" "0 \<le> pin_count (pages s ! nat f)"
        "frame_at s f = Some (pages s ! nat f)"
proof -
  from assms(2) have m: "(p, f) \<in> set (page_table s)" by (rule map_of_SomeD)
  with assms(1) show f0: "0 \<le> f" and fp: "f < int (pool_size s)"
    and "page_id (pages s ! nat f) = p"
    by (auto simp: bpm_inv_def)
  from f0 fp assms(1) show l: "nat f < length (pages s)" by (auto simp: bpm_inv_def)
  then have "pages s ! nat f \<in> set (pages s)" by simp
  with assms(1) show "0 \<le> pin_count (pages s ! nat f)" by (auto simp: bpm_inv_def)
  from f0 l show "frame_at s f = Some (pages s ! nat f)" by (rule frame_at_Some)
qed

text \<open>A replacer of capacity n that holds frames below n, each once, has room for an absent frame.\<close>

lemma lru_room:
  assumes d: "distinct xs" and r: "\<forall>g \<in> set xs. 0 \<le> g \<and> g < int n"
    and f: "0 \<le> f" "f < int n" "f \<notin> set xs"
  shows "length xs < n"
proof -
  have "set xs \<subseteq> {0..<int n} - {f}" using r f by auto
  then have "card (set xs) \<le> card ({0..<int n} - {f})" by (intro card_mono) auto
  also have "\<dots> = n - 1" using f by simp
  finally have "length xs \<le> n - 1" using d by (simp add: distinct_card)
  moreover have "0 < n" using f by auto
  ultimately show ?thesis by linarith
qed

lemma Unpin_member:
  assumes "lru_inv r" "\<forall>g \<in> set (lru_list r). 0 \<le> g \<and> g < int (max_size r)"
    "0 \<le> f" "f < int (max_size r)"
  shows "f \<in> set (lru_list (Unpin f r))"
proof (cases "f \<in> lru_hash r")
  case True
  then show ?thesis using assms(1) by (simp add: Unpin_def lru_inv_def)
next
  case False
  then have "f \<notin> set (lru_list r)" using assms(1) by (simp add: lru_inv_def)
  then have "length (lru_list r) < max_size r"
    using lru_room[of "lru_list r" "max_size r" f] assms by (simp add: lru_inv_def)
  then show ?thesis using False by (simp add: Unpin_def)
qed

text \<open>
  C7. In every state the pool reaches from its constructor, \<open>UnpinPgImp s p d\<close> returns false, changing nothing, exactly when
  \<open>p\<close> is not resident or its pin count is already zero. Otherwise it returns true,
  decrements the pin count, sets the dirty flag to its old value or \<open>d\<close> (so it never clears
  it), calls the replacer's \<open>Unpin\<close> for the frame exactly when the pin count reaches zero,
  after which the frame is in the replacer, and leaves everything else as it was.
\<close>

theorem UnpinPgImp_contract:
  assumes reach: "bpm_run calls (new_BufferPoolManagerInstance psize n idx dm) = Some s"
  shows "case map_of (page_table s) p of
           None \<Rightarrow> UnpinPgImp s p d = Some (False, s)
         | Some f \<Rightarrow>
             (let pg = pages s ! nat f in
              if pin_count pg = 0 then UnpinPgImp s p d = Some (False, s)
              else (\<exists>s'. UnpinPgImp s p d = Some (True, s')
                \<and> pages s' = (pages s)[nat f :=
                     pg\<lparr>pin_count := pin_count pg - 1, is_dirty := (is_dirty pg \<or> d)\<rparr>]
                \<and> replacer s' = (if pin_count pg - 1 = 0 then Unpin f (replacer s) else replacer s)
                \<and> (f \<in> set (lru_list (replacer s')))
                     = (pin_count pg - 1 = 0 \<or> f \<in> set (lru_list (replacer s)))
                \<and> page_table s' = page_table s \<and> free_list s' = free_list s
                \<and> disk_manager s' = disk_manager s \<and> next_page_id s' = next_page_id s))"
proof -
  have inv: "bpm_inv s" using reach by (rule reachable_inv)
  show ?thesis
  proof (cases "map_of (page_table s) p")
  case None
  then show ?thesis by (simp add: UnpinPgImp_def)
next
  case (Some f)
  note res = bpm_inv_resident[OF inv Some]
  let ?pg = "pages s ! nat f"
  show ?thesis
  proof (cases "pin_count ?pg = 0")
    case True
    then show ?thesis using Some res(6) by (simp add: UnpinPgImp_def)
  next
    case False
    with res(5) have pos: "0 < pin_count ?pg" by simp
    have pg2: "(if d then ?pg\<lparr>pin_count := pin_count ?pg - 1, is_dirty := True\<rparr>
                else ?pg\<lparr>pin_count := pin_count ?pg - 1\<rparr>)
               = ?pg\<lparr>pin_count := pin_count ?pg - 1, is_dirty := (is_dirty ?pg \<or> d)\<rparr>"
      by simp
    have mem: "pin_count ?pg = 1 \<Longrightarrow> f \<in> set (lru_list (Unpin f (replacer s)))"
      using Unpin_member[of "replacer s" f] inv res(1,3) by (simp add: bpm_inv_def)
    show ?thesis
      using Some res(6) pos False mem
      by (auto simp: UnpinPgImp_def Let_def set_frame_def)
  qed
qed
qed

text \<open>
  C3, as amended. In every state the pool reaches from its constructor,
  \<open>DeletePgImp s p\<close> calls \<open>DeallocatePage p\<close> first, on every path. If
  \<open>p\<close> is not resident it returns true with no other effect. If \<open>p\<close> is resident and
  pinned it returns false with no other effect. If \<open>p\<close> is resident with pin count zero it
  returns true after writing the page to disk if it is dirty, erasing it from the page table,
  resetting the frame to \<open>INVALID_PAGE_ID\<close>, pin count 0, clean and zeroed, removing the
  frame from the replacer and appending it to the free list.
\<close>

theorem DeletePgImp_contract:
  assumes reach: "bpm_run calls (new_BufferPoolManagerInstance psize n idx dm) = Some s"
  shows "case map_of (page_table s) p of
           None \<Rightarrow> DeletePgImp s p = Some (True, DeallocatePage p s)
         | Some f \<Rightarrow>
             (let pg = pages s ! nat f in
              if pin_count pg > 0 then DeletePgImp s p = Some (False, DeallocatePage p s)
              else (\<exists>s'. DeletePgImp s p = Some (True, s')
                \<and> disk_log (disk_manager s') =
                    disk_log (disk_manager s) @ [Deallocated p]
                      @ (if is_dirty pg then [Wrote p (data pg)] else [])
                \<and> disk_pages (disk_manager s') =
                    (if is_dirty pg then (disk_pages (disk_manager s))(p := data pg)
                     else disk_pages (disk_manager s))
                \<and> page_table s' = AList.delete p (page_table s)
                \<and> map_of (page_table s') p = None
                \<and> pages s' = (pages s)[nat f :=
                     \<lparr>page_id = INVALID_PAGE_ID, pin_count = 0, is_dirty = False, data = 0\<rparr>]
                \<and> replacer s' = Pin f (replacer s)
                \<and> f \<notin> set (lru_list (replacer s'))
                \<and> free_list s' = free_list s @ [f]
                \<and> next_page_id s' = next_page_id s))"
proof -
  have inv: "bpm_inv s" using reach by (rule reachable_inv)
  show ?thesis
  proof (cases "map_of (page_table s) p")
  case None
  then show ?thesis by (simp add: DeletePgImp_def DeallocatePage_def)
next
  case (Some f)
  note res = bpm_inv_resident[OF inv Some]
  let ?pg = "pages s ! nat f"
  have fa: "frame_at (DeallocatePage p s) f = Some ?pg"
    using res(1,2) by (simp add: frame_at_def DeallocatePage_def)
  have pt: "map_of (page_table (DeallocatePage p s)) p = Some f"
    using Some by (simp add: DeallocatePage_def)
  show ?thesis
  proof (cases "pin_count ?pg > 0")
    case True
    then show ?thesis using Some fa pt by (simp add: DeletePgImp_def Let_def)
  next
    case False
    have li: "lru_inv (replacer s)" using inv by (simp add: bpm_inv_def)
    have eq: "?pg\<lparr>is_dirty := False, pin_count := 0, page_id := INVALID_PAGE_ID, data := 0\<rparr>
              = \<lparr>page_id = INVALID_PAGE_ID, pin_count = 0, is_dirty = False, data = 0\<rparr>"
      by simp
    show ?thesis
      using Some fa pt False res(4) Pin_not_member[OF li, of f]
      by (simp add: DeletePgImp_def Let_def set_frame_def ResetMemory_def
            DeallocatePage_def WritePage_def delete_conv' eq)
  qed
qed
qed

lemma Victim_Some:
  "Victim r = (Some f, r') \<Longrightarrow> lru_list r \<noteq> [] \<and> f = last (lru_list r) \<and> f \<in> set (lru_list r)"
  by (auto simp: Victim_def split: if_splits)

lemma bpm_inv_victim:
  assumes "bpm_inv s" "Victim (replacer s) = (Some f, r)"
  shows "0 \<le> f" "nat f < length (pages s)"
proof -
  from Victim_Some[OF assms(2)] have "f \<in> set (lru_list (replacer s))" by simp
  with assms(1) show "0 \<le> f" "nat f < length (pages s)" by (auto simp: bpm_inv_def)
qed

lemma bpm_inv_free:
  assumes "bpm_inv s" "free_list s \<noteq> []"
  shows "0 \<le> hd (free_list s)" "nat (hd (free_list s)) < length (pages s)"
proof -
  from assms(2) have "hd (free_list s) \<in> set (free_list s)" by simp
  with assms(1) show "0 \<le> hd (free_list s)" "nat (hd (free_list s)) < length (pages s)"
    by (auto simp: bpm_inv_def)
qed

lemma NewPgImp_free:
  assumes inv: "bpm_inv s" and al: "ValidatePageId s (next_page_id s)" and fl: "free_list s \<noteq> []"
  shows "\<exists>s'. NewPgImp s = Some (Some (next_page_id s, hd (free_list s)), s')
           \<and> disk_manager s' = disk_manager s
           \<and> page_id (pages s' ! nat (hd (free_list s))) = next_page_id s"
  using bpm_inv_free[OF inv fl] al fl
  by (simp add: NewPgImp_def NewPg_construct_def AllocatePage_def Let_def frame_at_def
        set_frame_def ResetMemory_def ValidatePageId_def)

lemma NewPgImp_victim:
  assumes inv: "bpm_inv s" and al: "ValidatePageId s (next_page_id s)" and fl: "free_list s = []"
    and v: "Victim (replacer s) = (Some f, r)"
  shows "\<exists>s'. NewPgImp s = Some (Some (next_page_id s, f), s')
           \<and> disk_log (disk_manager s') =
               disk_log (disk_manager s)
                 @ (if is_dirty (pages s ! nat f)
                    then [Wrote (page_id (pages s ! nat f)) (data (pages s ! nat f))] else [])
           \<and> disk_pages (disk_manager s') =
               (if is_dirty (pages s ! nat f)
                then (disk_pages (disk_manager s))(page_id (pages s ! nat f) := data (pages s ! nat f))
                else disk_pages (disk_manager s))
           \<and> page_id (pages s' ! nat f) = next_page_id s"
  using bpm_inv_victim[OF inv v] al fl v
  by (simp add: NewPgImp_def NewPg_construct_def AllocatePage_def Let_def frame_at_def
        set_frame_def ResetMemory_def ValidatePageId_def WritePage_def)

lemma FetchPgImp_free:
  assumes inv: "bpm_inv s" and nr: "map_of (page_table s) p = None" and fl: "free_list s \<noteq> []"
  shows "\<exists>s'. FetchPgImp s p = Some (Some (hd (free_list s)), s')
           \<and> disk_log (disk_manager s') = disk_log (disk_manager s) @ [Read p]
           \<and> disk_pages (disk_manager s') = disk_pages (disk_manager s)
           \<and> page_id (pages s' ! nat (hd (free_list s))) = p"
  using bpm_inv_free[OF inv fl] nr fl
  by (simp add: FetchPgImp_def FetchPg_load_def Let_def frame_at_def
        set_frame_def ReadPage_def)

lemma FetchPgImp_victim:
  assumes inv: "bpm_inv s" and nr: "map_of (page_table s) p = None" and fl: "free_list s = []"
    and v: "Victim (replacer s) = (Some f, r)"
  shows "\<exists>s'. FetchPgImp s p = Some (Some f, s')
           \<and> disk_log (disk_manager s') =
               disk_log (disk_manager s)
                 @ (if is_dirty (pages s ! nat f)
                    then [Wrote (page_id (pages s ! nat f)) (data (pages s ! nat f))] else [])
                 @ [Read p]
           \<and> disk_pages (disk_manager s') =
               (if is_dirty (pages s ! nat f)
                then (disk_pages (disk_manager s))(page_id (pages s ! nat f) := data (pages s ! nat f))
                else disk_pages (disk_manager s))
           \<and> page_id (pages s' ! nat f) = p"
  using bpm_inv_victim[OF inv v] nr fl v
  by (simp add: FetchPgImp_def FetchPg_load_def Let_def frame_at_def
        set_frame_def ReadPage_def WritePage_def)

text \<open>
  C8. In every state the pool reaches from its constructor, if the allocator assertion
  holds: when \<open>NewPgImp\<close> or \<open>FetchPgImp\<close> (of a page that is not resident) takes a
  victim frame from the replacer and the page in that frame is dirty, the disk receives one
  \<open>WritePage\<close> with the old page id and the old bytes, ahead of the read of the new page,
  and the frame then carries the new page id; a clean victim is not written; a frame taken
  from the free list is not dirty and causes no write.
\<close>

theorem dirty_victim_written_before_reuse:
  assumes reach: "bpm_run calls (new_BufferPoolManagerInstance psize n idx dm) = Some s"
    and al: "ValidatePageId s (next_page_id s)"
  shows "(free_list s \<noteq> [] \<longrightarrow>
            \<not> is_dirty (pages s ! nat (hd (free_list s)))
          \<and> (\<exists>s'. NewPgImp s = Some (Some (next_page_id s, hd (free_list s)), s')
               \<and> disk_manager s' = disk_manager s
               \<and> page_id (pages s' ! nat (hd (free_list s))) = next_page_id s)
          \<and> (map_of (page_table s) p = None \<longrightarrow>
               (\<exists>s'. FetchPgImp s p = Some (Some (hd (free_list s)), s')
                  \<and> disk_log (disk_manager s') = disk_log (disk_manager s) @ [Read p]
                  \<and> disk_pages (disk_manager s') = disk_pages (disk_manager s)
                  \<and> page_id (pages s' ! nat (hd (free_list s))) = p)))
       \<and> (free_list s = [] \<longrightarrow>
            (\<forall>f r. Victim (replacer s) = (Some f, r) \<longrightarrow>
               (let old = pages s ! nat f;
                    write_back = (if is_dirty old then [Wrote (page_id old) (data old)] else []);
                    blocks = (if is_dirty old
                              then (disk_pages (disk_manager s))(page_id old := data old)
                              else disk_pages (disk_manager s))
                in (\<exists>s'. NewPgImp s = Some (Some (next_page_id s, f), s')
                      \<and> disk_log (disk_manager s') = disk_log (disk_manager s) @ write_back
                      \<and> disk_pages (disk_manager s') = blocks
                      \<and> page_id (pages s' ! nat f) = next_page_id s)
                 \<and> (map_of (page_table s) p = None \<longrightarrow>
                      (\<exists>s'. FetchPgImp s p = Some (Some f, s')
                         \<and> disk_log (disk_manager s') =
                             disk_log (disk_manager s) @ write_back @ [Read p]
                         \<and> disk_pages (disk_manager s') = blocks
                         \<and> page_id (pages s' ! nat f) = p)))))"
proof -
  have inv: "bpm_inv s" using reach by (rule reachable_inv)
  have c: "free_list s \<noteq> [] \<longrightarrow> \<not> is_dirty (pages s ! nat (hd (free_list s)))"
    using consistentD(6)[OF reachable_consistent[OF reach], of "hd (free_list s)"] by simp
  have a: "free_list s \<noteq> [] \<longrightarrow>
            (\<exists>s'. NewPgImp s = Some (Some (next_page_id s, hd (free_list s)), s')
               \<and> disk_manager s' = disk_manager s
               \<and> page_id (pages s' ! nat (hd (free_list s))) = next_page_id s)
          \<and> (map_of (page_table s) p = None \<longrightarrow>
               (\<exists>s'. FetchPgImp s p = Some (Some (hd (free_list s)), s')
                  \<and> disk_log (disk_manager s') = disk_log (disk_manager s) @ [Read p]
                  \<and> disk_pages (disk_manager s') = disk_pages (disk_manager s)
                  \<and> page_id (pages s' ! nat (hd (free_list s))) = p))"
    using NewPgImp_free[OF inv al] FetchPgImp_free[OF inv, of p] by blast
  have b: "free_list s = [] \<longrightarrow>
            (\<forall>f r. Victim (replacer s) = (Some f, r) \<longrightarrow>
               (let old = pages s ! nat f;
                    write_back = (if is_dirty old then [Wrote (page_id old) (data old)] else []);
                    blocks = (if is_dirty old
                              then (disk_pages (disk_manager s))(page_id old := data old)
                              else disk_pages (disk_manager s))
                in (\<exists>s'. NewPgImp s = Some (Some (next_page_id s, f), s')
                      \<and> disk_log (disk_manager s') = disk_log (disk_manager s) @ write_back
                      \<and> disk_pages (disk_manager s') = blocks
                      \<and> page_id (pages s' ! nat f) = next_page_id s)
                 \<and> (map_of (page_table s) p = None \<longrightarrow>
                      (\<exists>s'. FetchPgImp s p = Some (Some f, s')
                         \<and> disk_log (disk_manager s') =
                             disk_log (disk_manager s) @ write_back @ [Read p]
                         \<and> disk_pages (disk_manager s') = blocks
                         \<and> page_id (pages s' ! nat f) = p))))"
    unfolding Let_def
    using NewPgImp_victim[OF inv al] FetchPgImp_victim[OF inv, of p] by blast
  from a b c show ?thesis by blast
qed


lemma FlushAll_loop_effect:
  assumes "\<forall>(p, f) \<in> set xs. 0 \<le> f \<and> nat f < length (pages s)"
  shows "\<exists>dm. FlushAll_loop xs s = Some (s\<lparr>disk_manager := dm\<rparr>)
           \<and> disk_log dm = disk_log (disk_manager s) @ dirty_writes s xs"
  using assms
proof (induction xs arbitrary: s)
  case Nil
  have "s = s\<lparr>disk_manager := disk_manager s\<rparr>" by simp
  then show ?case by (auto simp: dirty_writes_def intro!: exI[of _ "disk_manager s"])
next
  case (Cons x xs)
  obtain p f where x: "x = (p, f)" by (cases x)
  from Cons.prems x have fr: "0 \<le> f" "nat f < length (pages s)" by auto
  let ?s1 = "if is_dirty (pages s ! nat f)
             then s\<lparr>disk_manager := WritePage p (data (pages s ! nat f)) (disk_manager s)\<rparr>
             else s"
  have pg: "pages ?s1 = pages s" by simp
  have "\<forall>(p, f) \<in> set xs. 0 \<le> f \<and> nat f < length (pages ?s1)"
    using Cons.prems by (simp only: pg) auto
  from Cons.IH[OF this] obtain dm where
    dm: "FlushAll_loop xs ?s1 = Some (?s1\<lparr>disk_manager := dm\<rparr>)"
        "disk_log dm = disk_log (disk_manager ?s1) @ dirty_writes ?s1 xs"
    by blast
  have e1: "?s1\<lparr>disk_manager := dm\<rparr> = s\<lparr>disk_manager := dm\<rparr>" by simp
  have e2: "dirty_writes ?s1 xs = dirty_writes s xs" by (simp add: dirty_writes_def)
  have e3: "disk_log (disk_manager ?s1) @ dirty_writes s xs
            = disk_log (disk_manager s) @ dirty_writes s (x # xs)"
    by (simp add: x dirty_writes_def WritePage_def)
  have "FlushAll_loop (x # xs) s = FlushAll_loop xs ?s1"
    using fr by (simp add: x frame_at_def)
  then show ?case using dm e1 e2 e3 by (metis)
qed

lemma dirty_writes_set:
  assumes "distinct (map fst xs)"
  shows "Wrote p d \<in> set (dirty_writes s xs)
           \<longleftrightarrow> (\<exists>f. map_of xs p = Some f \<and> is_dirty (pages s ! nat f) \<and> d = data (pages s ! nat f))"
  using assms by (auto simp: dirty_writes_def)

lemma dirty_writes_only_writes:
  "e \<in> set (dirty_writes s xs) \<Longrightarrow> \<exists>p d. e = Wrote p d"
  by (auto simp: dirty_writes_def)

lemma FlushPgImp_resident:
  assumes inv: "bpm_inv s" and res: "map_of (page_table s) p = Some f" and v: "p \<noteq> INVALID_PAGE_ID"
  shows "\<exists>s'. FlushPgImp s p = Some (True, s')
          \<and> \<not> is_dirty (pages s' ! nat f)
          \<and> disk_log (disk_manager s') =
              disk_log (disk_manager s) @ [Wrote p (data (pages s ! nat f))]"
  using bpm_inv_resident[OF inv res] res v
  by (simp add: FlushPgImp_def set_frame_def WritePage_def)

text \<open>
  C10. In every state the pool reaches from its constructor \<open>FlushAllPgsImp\<close> returns, having written to disk exactly the
  resident pages whose dirty flag is set, each once, and nothing else; the pages (so every
  dirty flag and pin count), the page table, the free list and the replacer are unchanged.
  So when such a page's frame is the next victim, \<open>NewPgImp\<close> writes the page again;
  \<open>FlushPgImp\<close> of a resident page, in contrast, leaves its dirty flag clear.
\<close>

theorem FlushAllPgsImp_keeps_dirty:
  assumes reach: "bpm_run calls (new_BufferPoolManagerInstance psize n idx dm) = Some s"
  shows "\<exists>s'. FlushAllPgsImp s = Some s'
     \<and> disk_log (disk_manager s') = disk_log (disk_manager s) @ dirty_writes s (page_table s)
     \<and> (\<forall>p d. Wrote p d \<in> set (dirty_writes s (page_table s))
           \<longleftrightarrow> (\<exists>f. map_of (page_table s) p = Some f \<and> is_dirty (pages s ! nat f)
                    \<and> d = data (pages s ! nat f)))
     \<and> pages s' = pages s \<and> page_table s' = page_table s \<and> free_list s' = free_list s
     \<and> replacer s' = replacer s \<and> next_page_id s' = next_page_id s
     \<and> (\<forall>p f r. map_of (page_table s) p = Some f \<and> is_dirty (pages s ! nat f)
              \<and> free_list s = [] \<and> ValidatePageId s (next_page_id s)
              \<and> Victim (replacer s) = (Some f, r)
           \<longrightarrow> Wrote p (data (pages s ! nat f)) \<in> set (dirty_writes s (page_table s))
               \<and> (\<exists>s''. NewPgImp s' = Some (Some (next_page_id s, f), s'')
                  \<and> disk_log (disk_manager s'') =
                      disk_log (disk_manager s') @ [Wrote p (data (pages s ! nat f))]))
     \<and> (\<forall>p f. map_of (page_table s) p = Some f \<and> p \<noteq> INVALID_PAGE_ID
           \<longrightarrow> (\<exists>s1. FlushPgImp s p = Some (True, s1) \<and> \<not> is_dirty (pages s1 ! nat f)))"
proof -
  have inv: "bpm_inv s" using reach by (rule reachable_inv)
  have rng: "\<forall>(p, f) \<in> set (page_table s). 0 \<le> f \<and> nat f < length (pages s)"
    using inv by (auto simp: bpm_inv_def)
  from FlushAll_loop_effect[OF rng] obtain dm' where
    dm: "FlushAllPgsImp s = Some (s\<lparr>disk_manager := dm'\<rparr>)"
        "disk_log dm' = disk_log (disk_manager s) @ dirty_writes s (page_table s)"
    by (auto simp: FlushAllPgsImp_def)
  let ?s' = "s\<lparr>disk_manager := dm'\<rparr>"
  have inv': "bpm_inv ?s'" using inv by (simp add: bpm_inv_def)
  have dk: "distinct (map fst (page_table s))" using inv by (simp add: bpm_inv_def)
  have evict: "\<forall>p f r. map_of (page_table s) p = Some f \<and> is_dirty (pages s ! nat f)
              \<and> free_list s = [] \<and> ValidatePageId s (next_page_id s)
              \<and> Victim (replacer s) = (Some f, r)
           \<longrightarrow> Wrote p (data (pages s ! nat f)) \<in> set (dirty_writes s (page_table s))
               \<and> (\<exists>s''. NewPgImp ?s' = Some (Some (next_page_id s, f), s'')
                  \<and> disk_log (disk_manager s'') =
                      disk_log (disk_manager ?s') @ [Wrote p (data (pages s ! nat f))])"
  proof (intro allI impI)
    fix p f r
    assume a: "map_of (page_table s) p = Some f \<and> is_dirty (pages s ! nat f)
              \<and> free_list s = [] \<and> ValidatePageId s (next_page_id s)
              \<and> Victim (replacer s) = (Some f, r)"
    then have al: "ValidatePageId ?s' (next_page_id ?s')" by (simp add: ValidatePageId_def)
    from a have fl: "free_list ?s' = []" and v: "Victim (replacer ?s') = (Some f, r)" by simp_all
    from a have pid: "page_id (pages s ! nat f) = p" using bpm_inv_resident(4)[OF inv] by blast
    have w: "Wrote p (data (pages s ! nat f)) \<in> set (dirty_writes s (page_table s))"
      using a dirty_writes_set[OF dk, of p "data (pages s ! nat f)" s] by blast
    from NewPgImp_victim[OF inv' al fl v] a pid w
    show "Wrote p (data (pages s ! nat f)) \<in> set (dirty_writes s (page_table s))
               \<and> (\<exists>s''. NewPgImp ?s' = Some (Some (next_page_id s, f), s'')
                  \<and> disk_log (disk_manager s'') =
                      disk_log (disk_manager ?s') @ [Wrote p (data (pages s ! nat f))])"
      by auto
  qed
  have flush: "\<forall>p f. map_of (page_table s) p = Some f \<and> p \<noteq> INVALID_PAGE_ID
           \<longrightarrow> (\<exists>s1. FlushPgImp s p = Some (True, s1) \<and> \<not> is_dirty (pages s1 ! nat f))"
    using FlushPgImp_resident[OF inv] by blast
  show ?thesis
    apply (rule exI[of _ ?s'])
    using dm dirty_writes_set[OF dk, of _ _ s] evict flush by simp
qed

subsection \<open>The buffer pool on the example pool\<close>

theorem UnpinPgImp_contract_witness:
  "bpm_run [CallNewPage, CallNewPage, CallWriteBytes 0 7, CallUnpinPage 0 True]
     (new_BufferPoolManagerInstance 2 1 0 example_disk) = Some example_pool
   \<and> UnpinPgImp example_pool 5 True = Some (False, example_pool)
   \<and> UnpinPgImp example_pool 0 False = Some (False, example_pool)
   \<and> (\<exists>s'. UnpinPgImp example_pool 1 False = Some (True, s')
         \<and> pages s' = [\<lparr>page_id = 0, pin_count = 0, is_dirty = True, data = 7\<rparr>,
                        \<lparr>page_id = 1, pin_count = 0, is_dirty = False, data = 0\<rparr>]
         \<and> lru_list (replacer s') = [1, 0])"
  using example_pool_run
    UnpinPgImp_contract[OF example_pool_run, of 5 True]
    UnpinPgImp_contract[OF example_pool_run, of 0 False]
    UnpinPgImp_contract[OF example_pool_run, of 1 False]
  by (auto simp: example_pool_def Unpin_def Let_def)

text \<open>
  C3 as stated fails: deleting the pinned page 1 of the example pool returns false, yet
  the call of \<open>DeallocatePage\<close> has been made and shows in the disk log.
\<close>

theorem DeletePgImp_pinned_counterexample:
  "bpm_run [CallNewPage, CallNewPage, CallWriteBytes 0 7, CallUnpinPage 0 True]
     (new_BufferPoolManagerInstance 2 1 0 example_disk) = Some example_pool
   \<and> map_of (page_table example_pool) 1 = Some 1
   \<and> 0 < pin_count (pages example_pool ! 1)
   \<and> (\<exists>s'. DeletePgImp example_pool 1 = Some (False, s')
         \<and> s' \<noteq> example_pool
         \<and> disk_log (disk_manager example_pool) = []
         \<and> disk_log (disk_manager s') = [Deallocated 1])"
proof -
  have "map_of (page_table example_pool) 1 = Some 1
   \<and> 0 < pin_count (pages example_pool ! 1)
   \<and> (\<exists>s'. DeletePgImp example_pool 1 = Some (False, s')
         \<and> s' \<noteq> example_pool
         \<and> disk_log (disk_manager example_pool) = []
         \<and> disk_log (disk_manager s') = [Deallocated 1])"
    by (simp add: example_pool_def example_disk_def DeletePgImp_def DeallocatePage_def
          frame_at_def Let_def)
  with example_pool_run show ?thesis by (rule conjI)
qed

theorem DeletePgImp_contract_witness:
  "bpm_run [CallNewPage, CallNewPage, CallWriteBytes 0 7, CallUnpinPage 0 True]
     (new_BufferPoolManagerInstance 2 1 0 example_disk) = Some example_pool
   \<and> DeletePgImp example_pool 5 = Some (True, DeallocatePage 5 example_pool)
   \<and> DeletePgImp example_pool 1 = Some (False, DeallocatePage 1 example_pool)
   \<and> (\<exists>s'. DeletePgImp example_pool 0 = Some (True, s')
         \<and> disk_log (disk_manager s') = [Deallocated 0, Wrote 0 7]
         \<and> page_table s' = [(1, 1)]
         \<and> pages s' = [\<lparr>page_id = INVALID_PAGE_ID, pin_count = 0, is_dirty = False, data = 0\<rparr>,
                        \<lparr>page_id = 1, pin_count = 1, is_dirty = False, data = 0\<rparr>]
         \<and> lru_list (replacer s') = []
         \<and> free_list s' = [0])"
  using example_pool_run
    DeletePgImp_contract[OF example_pool_run, of 5]
    DeletePgImp_contract[OF example_pool_run, of 1]
    DeletePgImp_contract[OF example_pool_run, of 0]
  by (auto simp: example_pool_def example_disk_def Pin_def AList.delete_eq Let_def)

lemma example_pool_alloc: "ValidatePageId example_pool (next_page_id example_pool)"
  by (simp add: ValidatePageId_def example_pool_def)

theorem dirty_victim_written_before_reuse_witness:
  "bpm_run [CallNewPage, CallNewPage, CallWriteBytes 0 7, CallUnpinPage 0 True]
     (new_BufferPoolManagerInstance 2 1 0 example_disk) = Some example_pool
   \<and> ValidatePageId example_pool (next_page_id example_pool)
   \<and> free_list example_pool = []
   \<and> Victim (replacer example_pool) = (Some 0, \<lparr>max_size = 2, lru_list = [], lru_hash = {}\<rparr>)
   \<and> (\<exists>s'. NewPgImp example_pool = Some (Some (2, 0), s')
         \<and> disk_log (disk_manager s') = [Wrote 0 7] \<and> page_id (pages s' ! 0) = 2)
   \<and> (\<exists>s'. FetchPgImp example_pool 9 = Some (Some 0, s')
         \<and> disk_log (disk_manager s') = [Wrote 0 7, Read 9] \<and> page_id (pages s' ! 0) = 9)
   \<and> free_list (new_BufferPoolManagerInstance 2 1 0 example_disk) = [0, 1]
   \<and> \<not> is_dirty (pages (new_BufferPoolManagerInstance 2 1 0 example_disk) ! 0)
   \<and> (\<exists>s'. NewPgImp (new_BufferPoolManagerInstance 2 1 0 example_disk) = Some (Some (0, 0), s')
         \<and> disk_manager s' = example_disk \<and> page_id (pages s' ! 0) = 0)"
proof -
  let ?s0 = "new_BufferPoolManagerInstance 2 1 0 example_disk"
  have i0: "bpm_run [] ?s0 = Some ?s0" by simp
  have f0: "free_list ?s0 = [0, 1]"
    by (simp add: new_BufferPoolManagerInstance_def upt_rec numeral_2_eq_2)
  have n0: "next_page_id ?s0 = 0" "disk_manager ?s0 = example_disk"
    by (simp_all add: new_BufferPoolManagerInstance_def)
  have a0: "ValidatePageId ?s0 (next_page_id ?s0)"
    by (simp add: ValidatePageId_def new_BufferPoolManagerInstance_def)
  from dirty_victim_written_before_reuse[OF i0 a0, of 9] f0 n0
  have fr: "\<not> is_dirty (pages ?s0 ! 0)
     \<and> (\<exists>s'. NewPgImp ?s0 = Some (Some (0, 0), s')
           \<and> disk_manager s' = example_disk \<and> page_id (pages s' ! 0) = 0)"
    by auto
  have v: "Victim (replacer example_pool) = (Some 0, \<lparr>max_size = 2, lru_list = [], lru_hash = {}\<rparr>)"
    by (simp add: example_pool_def Victim_def)
  have fl: "free_list example_pool = []" by (simp add: example_pool_def)
  have nr: "map_of (page_table example_pool) 9 = None" by (simp add: example_pool_def)
  from dirty_victim_written_before_reuse[OF example_pool_run example_pool_alloc, of 9] fl v nr
  have "\<exists>s'. NewPgImp example_pool = Some (Some (next_page_id example_pool, 0), s')
         \<and> disk_log (disk_manager s') = disk_log (disk_manager example_pool)
              @ (if is_dirty (pages example_pool ! nat 0)
                 then [Wrote (page_id (pages example_pool ! nat 0)) (data (pages example_pool ! nat 0))] else [])
         \<and> page_id (pages s' ! nat 0) = next_page_id example_pool"
   and "\<exists>s'. FetchPgImp example_pool 9 = Some (Some 0, s')
         \<and> disk_log (disk_manager s') = disk_log (disk_manager example_pool)
              @ (if is_dirty (pages example_pool ! nat 0)
                 then [Wrote (page_id (pages example_pool ! nat 0)) (data (pages example_pool ! nat 0))] else [])
              @ [Read 9]
         \<and> page_id (pages s' ! nat 0) = 9"
    by (auto simp: Let_def)
  then have "(\<exists>s'. NewPgImp example_pool = Some (Some (2, 0), s')
         \<and> disk_log (disk_manager s') = [Wrote 0 7] \<and> page_id (pages s' ! 0) = 2)
   \<and> (\<exists>s'. FetchPgImp example_pool 9 = Some (Some 0, s')
         \<and> disk_log (disk_manager s') = [Wrote 0 7, Read 9] \<and> page_id (pages s' ! 0) = 9)"
    by (simp add: example_pool_def example_disk_def)
  then show ?thesis using example_pool_run example_pool_alloc fl v f0 fr by blast
qed

theorem FlushAllPgsImp_keeps_dirty_witness:
  "bpm_run [CallNewPage, CallNewPage, CallWriteBytes 0 7, CallUnpinPage 0 True]
     (new_BufferPoolManagerInstance 2 1 0 example_disk) = Some example_pool
   \<and> (\<exists>s'. FlushAllPgsImp example_pool = Some s'
         \<and> disk_log (disk_manager s') = [Wrote 0 7]
         \<and> pages s' = pages example_pool
         \<and> is_dirty (pages s' ! 0)
         \<and> (\<exists>s''. NewPgImp s' = Some (Some (2, 0), s'')
               \<and> disk_log (disk_manager s'') = [Wrote 0 7, Wrote 0 7]))
   \<and> (\<exists>s1. FlushPgImp example_pool 0 = Some (True, s1) \<and> \<not> is_dirty (pages s1 ! 0))"
proof -
  have v: "Victim (replacer example_pool) = (Some 0, \<lparr>max_size = 2, lru_list = [], lru_hash = {}\<rparr>)"
    by (simp add: example_pool_def Victim_def)
  have fl: "free_list example_pool = []" by (simp add: example_pool_def)
  have r0: "map_of (page_table example_pool) 0 = Some 0" by (simp add: example_pool_def)
  have d0: "is_dirty (pages example_pool ! nat 0)" by (simp add: example_pool_def)
  have dw: "dirty_writes example_pool (page_table example_pool) = [Wrote 0 7]"
    by (simp add: dirty_writes_def example_pool_def)
  have iv: "(0::int) \<noteq> INVALID_PAGE_ID" by (simp add: INVALID_PAGE_ID_def)
  from FlushAllPgsImp_keeps_dirty[OF example_pool_run] obtain s' where
    s': "FlushAllPgsImp example_pool = Some s'"
      "disk_log (disk_manager s') = disk_log (disk_manager example_pool)
          @ dirty_writes example_pool (page_table example_pool)"
      "pages s' = pages example_pool"
      "\<forall>p f r. map_of (page_table example_pool) p = Some f \<and> is_dirty (pages example_pool ! nat f)
              \<and> free_list example_pool = [] \<and> ValidatePageId example_pool (next_page_id example_pool)
              \<and> Victim (replacer example_pool) = (Some f, r)
           \<longrightarrow> Wrote p (data (pages example_pool ! nat f)) \<in> set (dirty_writes example_pool (page_table example_pool))
               \<and> (\<exists>s''. NewPgImp s' = Some (Some (next_page_id example_pool, f), s'')
                  \<and> disk_log (disk_manager s'') =
                      disk_log (disk_manager s') @ [Wrote p (data (pages example_pool ! nat f))])"
      "\<forall>p f. map_of (page_table example_pool) p = Some f \<and> p \<noteq> INVALID_PAGE_ID
           \<longrightarrow> (\<exists>s1. FlushPgImp example_pool p = Some (True, s1) \<and> \<not> is_dirty (pages s1 ! nat f))"
    by blast
  from s'(4) r0 d0 fl v example_pool_alloc
  have n: "\<exists>s''. NewPgImp s' = Some (Some (next_page_id example_pool, 0), s'')
                  \<and> disk_log (disk_manager s'') =
                      disk_log (disk_manager s') @ [Wrote 0 (data (pages example_pool ! nat 0))]"
    by blast
  from s'(5) r0 iv have f: "\<exists>s1. FlushPgImp example_pool 0 = Some (True, s1) \<and> \<not> is_dirty (pages s1 ! nat 0)"
    by blast
  have l: "disk_log (disk_manager s') = [Wrote 0 7]" using s'(2) dw
    by (simp add: example_pool_def example_disk_def)
  have "\<exists>s''. NewPgImp s' = Some (Some (2, 0), s'')
               \<and> disk_log (disk_manager s'') = [Wrote 0 7, Wrote 0 7]"
    using n l by (simp add: example_pool_def)
  then show ?thesis using example_pool_run s'(1,3) l f d0 by simp
qed

section \<open>Properties of the lock manager\<close>




lemma example_state: "state (example_txn i) = GROWING"
  by (simp add: example_txn_def)



text \<open>
  Outside that case \<open>NeedWait\<close> still reads the mode from the back of the queue (line
  193), which is then the request of another transaction. Transactions 1 and 2 take shared
  locks on a record, 5 requests an exclusive lock and waits, 7 takes a shared lock through
  the fast path, and 2 unlocks, which notifies the queue. Awake, 5 re-runs \<open>NeedWait\<close>,
  which reads the shared mode of the request of 7, takes the fast path behind the shared
  head and returns false although the older transaction 1 precedes the exclusive request:
  5 is granted its exclusive lock beside the shared locks of 1 and 7.
\<close>

lemma NeedWait_wakeup_reads_back_entry:
  "\<exists>s1 s2 s3 s4 s5 s6.
     LockShared 1 (0, 0) example_lock_manager = Some (Returned True, s1)
     \<and> LockShared 2 (0, 0) s1 = Some (Returned True, s2)
     \<and> LockExclusive 5 (0, 0) s2 = Some (Waiting, s3)
     \<and> LockShared 7 (0, 0) s3 = Some (Returned True, s4)
     \<and> Unlock 2 (0, 0) s4 = Some (True, s5)
     \<and> cv_notified (lock_table s5 (0, 0)) = Suc (cv_notified (lock_table s4 (0, 0)))
     \<and> request_queue (lock_table s5 (0, 0)) =
          [\<lparr>rq_txn_id = 1, lock_mode = SHARED, granted = True\<rparr>,
           \<lparr>rq_txn_id = 5, lock_mode = EXCLUSIVE, granted = False\<rparr>,
           \<lparr>rq_txn_id = 7, lock_mode = SHARED, granted = True\<rparr>]
     \<and> NeedWait 5 (txn_map s5) (lock_table s5 (0, 0))
          = Some (False, txn_map s5, lock_table s5 (0, 0))
     \<and> Lock_wakeup 5 (0, 0) s5 = Some (Returned True, s6)
     \<and> request_queue (lock_table s6 (0, 0)) =
          [\<lparr>rq_txn_id = 1, lock_mode = SHARED, granted = True\<rparr>,
           \<lparr>rq_txn_id = 5, lock_mode = EXCLUSIVE, granted = True\<rparr>,
           \<lparr>rq_txn_id = 7, lock_mode = SHARED, granted = True\<rparr>]"
  by (simp add: LockShared_def LockExclusive_def Lock_wait_def Lock_grant_def Lock_wakeup_def
        Unlock_def NeedWait_def grant_all_def notify_all_def CheckAbort_def
        new_LockRequest_def new_LockRequestQueue_def new_LockManager_def
        example_lock_manager_def example_txns_def example_txn_def INVALID_TXN_ID_def Let_def)

lemma NeedWaitUpdate_loop_queue:
  "NeedWaitUpdate tid txns q = Some (nw, txns', q') \<Longrightarrow> request_queue q' = request_queue q"
  by (auto simp: NeedWaitUpdate_def notify_all_def split: option.splits prod.splits if_splits)

lemma LockUpgrade_wait_queue:
  assumes "LockUpgrade_wait tid rid s = Some (res, s')"
  shows "request_queue (lock_table s' rid) = request_queue (lock_table s rid)"
  using assms NeedWaitUpdate_loop_queue[of tid "txn_map s" "lock_table s rid"]
  by (auto simp: LockUpgrade_wait_def LockUpgrade_grant_def Let_def
      split: option.splits prod.splits if_splits)

lemma LockUpgrade_queue_unchanged:
  assumes "LockUpgrade tid rid s = Some (res, s')"
  shows "request_queue (lock_table s' rid) = request_queue (lock_table s rid)"
  using assms LockUpgrade_wait_queue[of tid rid s res s']
  by (auto simp: LockUpgrade_def split: option.splits if_splits)

lemma LockUpgrade_wakeup_queue_unchanged:
  assumes "LockUpgrade_wakeup tid rid s = Some (res, s')"
  shows "request_queue (lock_table s' rid) = request_queue (lock_table s rid)"
  using assms LockUpgrade_wait_queue[of tid rid s res s']
  by (auto simp: LockUpgrade_wakeup_def split: option.splits if_splits)

text \<open>
  C6 fails on the code. Transaction 1 holds the only, shared, lock on the record and is not
  exclusively locked on it. \<open>LockUpgrade\<close> returns true and moves the record from the
  shared to the exclusive lock set, but the request in the queue still has mode
  \<open>SHARED\<close>.
\<close>

theorem LockUpgrade_leaves_request_shared:
  "\<exists>s'. LockUpgrade 1 (0, 0) example_upgrade = Some (Returned True, s')
     \<and> map_option exclusive_lock_set (txn_map example_upgrade 1) = Some {}
     \<and> request_queue (lock_table s' (0, 0)) =
         [\<lparr>rq_txn_id = 1, lock_mode = SHARED, granted = True\<rparr>]
     \<and> map_option shared_lock_set (txn_map s' 1) = Some {}
     \<and> map_option exclusive_lock_set (txn_map s' 1) = Some {(0, 0)}"
  by (simp add: LockUpgrade_def LockUpgrade_wait_def LockUpgrade_grant_def NeedWaitUpdate_def
        example_upgrade_def example_txn_def CheckAbort_def Let_def)

text \<open>The sibling path: the grant of \<open>LockExclusive\<close> does write to the queue entry.\<close>

lemma LockExclusive_grants_in_queue:
  "\<exists>s'. LockExclusive 1 (0, 1) example_upgrade = Some (Returned True, s')
     \<and> request_queue (lock_table s' (0, 1)) =
         [\<lparr>rq_txn_id = 1, lock_mode = EXCLUSIVE, granted = True\<rparr>]"
  by (simp add: LockExclusive_def Lock_wait_def Lock_grant_def NeedWait_def grant_all_def
        new_LockRequest_def new_LockRequestQueue_def
        example_upgrade_def example_txn_def CheckAbort_def Let_def)

section \<open>Properties of the directory in a split\<close>


lemma Set_Some [simp]:
  "i < DIRECTORY_ARRAY_SIZE \<Longrightarrow>
     SetBucketPageId i p d = Some (d\<lparr>bucket_page_ids := (bucket_page_ids d)(i := p)\<rparr>)"
  "i < DIRECTORY_ARRAY_SIZE \<Longrightarrow>
     SetLocalDepth i ld d = Some (d\<lparr>local_depths := (local_depths d)(i := ld)\<rparr>)"
  "i < DIRECTORY_ARRAY_SIZE \<Longrightarrow> GetLocalDepth i d = Some (local_depths d i)"
  "i < DIRECTORY_ARRAY_SIZE \<Longrightarrow> GetBucketPageId i d = Some (bucket_page_ids d i)"
  by (simp_all add: SetBucketPageId_def SetLocalDepth_def GetLocalDepth_def GetBucketPageId_def)








lemma class_write_simps [simp]:
  "dir_Size (class_write n diff start p ld d) = dir_Size d"
  "global_depth (class_write n diff start p ld d) = global_depth d"
  "dir_page_id (class_write n diff start p ld d) = dir_page_id d"
  "bucket_page_ids (class_write n diff start p ld d) j
     = (if j < n \<and> j mod diff = start mod diff then p else bucket_page_ids d j)"
  "local_depths (class_write n diff start p ld d) j
     = (if j < n \<and> j mod diff = start mod diff then ld else local_depths d j)"
  by (simp_all add: class_write_def dir_Size_def)
































section \<open>The hash table operations on the example table\<close>

lemmas bpm_unfold = NewPgImp_def NewPg_construct_def AllocatePage_def ValidatePageId_def
  FetchPgImp_def FetchPg_load_def UnpinPgImp_def DeletePgImp_def frame_at_def set_frame_def
  ResetMemory_def Pin_def Unpin_def Victim_def ReadPage_def WritePage_def DeallocatePage_def
  new_BufferPoolManagerInstance_def new_Page_def new_LRUReplacer_def INVALID_PAGE_ID_def

lemmas ht_unfold = NewPage_def FetchPage_def UnpinPage_def DeletePage_def assert_UnpinPage_def
  assert_def on_table_latch_def on_page_latch_def page_data_def set_page_data_def
  get_directory_def set_directory_def RetrieveBucket_def set_bucket_def FetchDirectoryPage_def
  FetchBucketPage_def RLock_def RUnlock_def WLock_def WUnlock_def new_ReaderWriterLatch_def
  new_ExtendibleHashTable_def Hash_def KeyToPageId_def KeyToDirectoryIndex_def
  GetGlobalDepthMask_def zero_directory_def zero_page_bytes_def
  SetBucketPageId_def GetBucketPageId_def GetLocalDepth_def SetLocalDepth_def
  DIRECTORY_ARRAY_SIZE_def insert_Diff_if

lemma example_table_eq:
  "example_table =
     \<lparr>buffer_pool_manager =
        \<lparr>pool_size = 4, num_instances = 1, instance_index = 0, next_page_id = 0,
         pages = [new_Page, new_Page, new_Page, new_Page], page_table = [],
         free_list = [0, 1, 2, 3], replacer = \<lparr>max_size = 4, lru_list = [], lru_hash = {}\<rparr>,
         disk_manager = \<lparr>disk_pages = (\<lambda>_. 0), disk_log = []\<rparr>\<rparr>,
      directory_page_id = INVALID_PAGE_ID,
      table_latch = \<lparr>readers = 0, writer = False\<rparr>,
      page_latch = (\<lambda>_. \<lparr>readers = 0, writer = False\<rparr>),
      hash_fn = (\<lambda>k. k), BUCKET_ARRAY_SIZE = 2\<rparr>"
  by (simp add: example_table_def new_ExtendibleHashTable_def new_BufferPoolManagerInstance_def
        new_LRUReplacer_def new_ReaderWriterLatch_def upt_rec numeral_eq_Suc)

lemma FetchDirectoryPage_example:
  "\<exists>t'. FetchDirectoryPage example_table = Some (0, t')
     \<and> pin_counts t' = [(0, 1), (1, 0), (-1, 0), (-1, 0)]"
  by (simp add: example_table_eq pin_counts_def ht_unfold bpm_unfold Let_def)

text \<open>A call of \<open>SplitInsert\<close> never returns while the table latch has a reader.\<close>

lemma SplitInsert_blocked:
  "0 < readers (table_latch t) \<Longrightarrow> SplitInsert fuel key val t = None"
  by (cases fuel) (simp_all add: on_table_latch_def WLock_def)

text \<open>
  C4 fails on the code. \<open>Insert\<close> of the pair \<open>(0, 10)\<close> into the new table finds the
  bucket not full, inserts, unpins the bucket page dirty and the directory page clean (all
  pin counts are zero again) and returns true, but the table latch still has the reader it
  took at entry. From then on no \<open>SplitInsert\<close> returns.
\<close>

theorem Insert_keeps_table_read_latch:
  "\<exists>t'. Insert (Suc 0) 0 10 example_table = Some (True, t')
     \<and> table_latch example_table = \<lparr>readers = 0, writer = False\<rparr>
     \<and> table_latch t' = \<lparr>readers = 1, writer = False\<rparr>
     \<and> pin_counts t' = [(0, 0), (1, 0), (-1, 0), (-1, 0)]
     \<and> SplitInsert fuel 4 14 t' = None"
proof -
  have "\<exists>t'. Insert (Suc 0) 0 10 example_table = Some (True, t')
     \<and> table_latch example_table = \<lparr>readers = 0, writer = False\<rparr>
     \<and> table_latch t' = \<lparr>readers = 1, writer = False\<rparr>
     \<and> pin_counts t' = [(0, 0), (1, 0), (-1, 0), (-1, 0)]"
    by (simp add: example_table_eq pin_counts_def ht_unfold bpm_unfold Let_def
          bucket_IsFull_def bucket_Insert_def)
  then obtain t' where t': "Insert (Suc 0) 0 10 example_table = Some (True, t')"
    "table_latch example_table = \<lparr>readers = 0, writer = False\<rparr>"
    "table_latch t' = \<lparr>readers = 1, writer = False\<rparr>"
    "pin_counts t' = [(0, 0), (1, 0), (-1, 0), (-1, 0)]"
    by (elim exE conjE)
  from t'(3) have "SplitInsert fuel 4 14 t' = None"
    by (intro SplitInsert_blocked) simp
  with t' show ?thesis by (intro exI[of _ t'] conjI)
qed

text \<open>The sibling path: \<open>GetValue\<close> releases the table latch it took.\<close>

lemma GetValue_releases_table_latch:
  "\<exists>t'. GetValue 0 example_table = Some ((False, []), t')
     \<and> table_latch t' = \<lparr>readers = 0, writer = False\<rparr>
     \<and> pin_counts t' = [(0, 0), (1, 0), (-1, 0), (-1, 0)]"
  by (simp add: example_table_eq pin_counts_def ht_unfold bpm_unfold Let_def
        GetValue_def bucket_GetValue_def)


end
